theory Spec2Isabelle
  imports Main
begin

section \<open>Data model of BotConfig.js\<close>

text \<open>
  The five service types of the \<^verbatim>\<open>ServiceType\<close> enumeration
  (\<^verbatim>\<open>endpoint\<close>, \<^verbatim>\<open>abs\<close>, \<^verbatim>\<open>luis\<close>, \<^verbatim>\<open>qna\<close>, \<^verbatim>\<open>dispatch\<close>).
\<close>

datatype ServiceType = Endpoint | AzureBotService | Luis | QnA | Dispatch

text \<open>
  A connected-service descriptor object. The fields \<^verbatim>\<open>type\<close>, \<^verbatim>\<open>id\<close> and \<^verbatim>\<open>name\<close>
  are \<open>stype\<close>, \<open>sid\<close> and \<open>sname\<close>; every other property of the JavaScript object is read
  through \<open>props\<close>, where \<open>None\<close> is JavaScript's \<^verbatim>\<open>undefined\<close> (a property that is
  absent and one that holds \<^verbatim>\<open>undefined\<close> read the same and serialize the same).
  A string is a list of 8-bit characters: the JavaScript strings whose code units are all
  below 256.
\<close>

record service =
  stype :: ServiceType
  sid :: string
  sname :: string
  props :: "string \<Rightarrow> string option"

text \<open>
  Service descriptors are JavaScript objects: \<^verbatim>\<open>connectService\<close>, \<^verbatim>\<open>encryptService\<close> and
  \<^verbatim>\<open>decryptService\<close> write into the object they are handed, and the \<^verbatim>\<open>services\<close> array
  holds references to those same objects. A reference is an address in an object store.
\<close>

type_synonym ref = nat

text \<open>What \<^verbatim>\<open>Save\<close> writes: the JSON document with its four fields.\<close>

record botfile =
  f_name :: string
  f_description :: string
  f_secretKey :: string
  f_services :: "service list"

text \<open>
  The state the methods of one \<^verbatim>\<open>BotConfig\<close> instance run in: the fields of \<^verbatim>\<open>this\<close>
  (\<open>secretValidated\<close>, \<open>secret\<close> and \<open>location\<close> are those of \<^verbatim>\<open>this.internal\<close>, with
  \<open>None\<close> for \<^verbatim>\<open>undefined\<close>), the object store \<open>heap\<close> in which the service descriptors
  live, and the file system \<open>files\<close> that \<^verbatim>\<open>Save\<close> writes to.
\<close>

record state =
  secretValidated :: bool
  secret :: "string option"
  location :: "string option"
  name :: string
  secretKey :: string
  description :: string
  services :: "ref list"
  heap :: "ref \<Rightarrow> service"
  files :: "string \<rightharpoonup> botfile"

text \<open>
  The errors the methods throw. \<open>SecretMissing\<close> and \<open>SecretIncorrect\<close> are the two
  messages of \<^verbatim>\<open>validateSecretKey\<close>, \<open>AlreadyConnected\<close> carries the id of
  \<^verbatim>\<open>connectService\<close>'s message, \<open>NotFound\<close> the token of
  \<^verbatim>\<open>disconnectServiceByNameOrId\<close>'s. \<open>CryptoError\<close> is what the decipher of Node's
  \<^verbatim>\<open>crypto\<close> throws on input it cannot decrypt, \<open>TypeError\<close> what Node throws when handed
  \<^verbatim>\<open>undefined\<close> for a password or a path, \<open>FileError\<close> a write that the file system rejects.
\<close>

datatype error =
    SecretMissing
  | SecretIncorrect
  | AlreadyConnected string
  | NotFound string
  | CryptoError
  | TypeError
  | FileError

text \<open>
  The libraries the class calls and does not define. \<open>aes_encrypt k p\<close> is
  \<^verbatim>\<open>createCipher('aes192', k)\<close> followed by \<^verbatim>\<open>update(p, 'utf8', 'hex') + final('hex')\<close>;
  \<open>aes_decrypt k c\<close> is \<^verbatim>\<open>createDecipher('aes192', k)\<close> followed by
  \<^verbatim>\<open>update(c, 'hex', 'utf8') + final('utf8')\<close>, \<open>None\<close> when it throws; \<open>uuid\<close> is the
  token that \<^verbatim>\<open>uuid()\<close> returns; \<open>writable p\<close> tells whether the file system accepts a
  write to the path \<open>p\<close> (a missing directory or a refused permission makes
  \<^verbatim>\<open>fsx.writeJson\<close> reject).
\<close>

record env =
  aes_encrypt :: "string \<Rightarrow> string \<Rightarrow> string"
  aes_decrypt :: "string \<Rightarrow> string \<Rightarrow> string option"
  uuid :: string
  writable :: "string \<Rightarrow> bool"

text \<open>
  What the development assumes of the cipher: decrypting with the password that encrypted
  returns the plaintext, and a ciphertext is never the empty string (a block cipher with
  padding emits at least one block).
\<close>

definition cipher_ok :: "env \<Rightarrow> bool" where
  "cipher_ok E \<longleftrightarrow>
     (\<forall>k p. aes_decrypt E k (aes_encrypt E k p) = Some p) \<and>
     (\<forall>k p. aes_encrypt E k p \<noteq> [])"

text \<open>
  A small cipher that meets \<open>cipher_ok\<close>, to run the methods on concrete stores: the
  ciphertext is the password, a bar and the plaintext, and decryption fails unless the
  ciphertext starts with the password and the bar. Its file system accepts a write to
  \<^verbatim>\<open>my.bot\<close> and to no other path.
\<close>

definition toy :: env where
  "toy = \<lparr> aes_encrypt = (\<lambda>k p. k @ ''|'' @ p),
           aes_decrypt = (\<lambda>k c. if take (Suc (length k)) c = k @ ''|''
                                 then Some (drop (Suc (length k)) c) else None),
           uuid = ''6ec0bd7f-11c0-43da-975e-2a8ad9ebae0b'',
           writable = (\<lambda>p. p = ''my.bot'') \<rparr>"

section \<open>The secret: encryption, decryption, validation\<close>

definition internalEncrypt :: "env \<Rightarrow> state \<Rightarrow> string \<Rightarrow> error + string" where
  "internalEncrypt E w v =
     (case secret w of
        None \<Rightarrow> Inl TypeError
      | Some k \<Rightarrow> Inr (aes_encrypt E k v))"

definition internalDecrypt :: "env \<Rightarrow> state \<Rightarrow> string \<Rightarrow> error + string" where
  "internalDecrypt E w c =
     (case secret w of
        None \<Rightarrow> Inl TypeError
      | Some k \<Rightarrow> (case aes_decrypt E k c of
                     None \<Rightarrow> Inl CryptoError
                   | Some p \<Rightarrow> Inr p))"

text \<open>
  \<^verbatim>\<open>validateSecretKey\<close>. Every exception inside the \<^verbatim>\<open>try\<close> block becomes the
  "secret is incorrect" error; the state is as it was when the method throws.
\<close>

definition validateSecretKey :: "env \<Rightarrow> state \<Rightarrow> (error + unit) \<times> state" where
  "validateSecretKey E w =
     (if secretValidated w then (Inr (), w)
      else (case secret w of
              None \<Rightarrow> (Inl SecretMissing, w)
            | Some k \<Rightarrow>
                if k = [] then (Inl SecretMissing, w)
                else if secretKey w = [] then
                  (case internalEncrypt E w (uuid E) of
                     Inl e \<Rightarrow> (Inl SecretIncorrect, w)
                   | Inr c \<Rightarrow> (Inr (), w\<lparr>secretKey := c, secretValidated := True\<rparr>))
                else
                  (case aes_decrypt E k (secretKey w) of
                     None \<Rightarrow> (Inl SecretIncorrect, w)
                   | Some v \<Rightarrow> (Inr (), w\<lparr>secretValidated := True\<rparr>))))"

text \<open>
  \<^verbatim>\<open>encryptValue\<close> and \<^verbatim>\<open>decryptValue\<close>: the value is \<^verbatim>\<open>undefined\<close> (\<open>None\<close>) or a
  string.
\<close>

definition encryptValue :: "env \<Rightarrow> state \<Rightarrow> string option \<Rightarrow> (error + string option) \<times> state" where
  "encryptValue E w val =
     (case val of
        None \<Rightarrow> (Inr val, w)
      | Some v \<Rightarrow>
          if v = [] then (Inr val, w)
          else if secretKey w \<noteq> [] then
            (case validateSecretKey E w of
               (Inl e, w') \<Rightarrow> (Inl e, w')
             | (Inr u, w') \<Rightarrow>
                 (case internalEncrypt E w' v of
                    Inl e \<Rightarrow> (Inl e, w')
                  | Inr c \<Rightarrow> (Inr (Some c), w')))
          else (Inr val, w))"

definition decryptValue :: "env \<Rightarrow> state \<Rightarrow> string option \<Rightarrow> (error + string option) \<times> state" where
  "decryptValue E w encryptedValue =
     (case encryptedValue of
        None \<Rightarrow> (Inr encryptedValue, w)
      | Some c \<Rightarrow>
          if c = [] then (Inr encryptedValue, w)
          else if secretKey w \<noteq> [] then
            (case validateSecretKey E w of
               (Inl e, w') \<Rightarrow> (Inl e, w')
             | (Inr u, w') \<Rightarrow>
                 (case internalDecrypt E w' c of
                    Inl e \<Rightarrow> (Inl e, w')
                  | Inr p \<Rightarrow> (Inr (Some p), w')))
          else (Inr encryptedValue, w))"

definition clearSecret :: "env \<Rightarrow> state \<Rightarrow> (error + unit) \<times> state" where
  "clearSecret E w =
     (case validateSecretKey E w of
        (Inl e, w') \<Rightarrow> (Inl e, w')
      | (Inr u, w') \<Rightarrow> (Inr (), w'\<lparr>secretKey := []\<rparr>))"

section \<open>Encrypting and decrypting services\<close>

text \<open>The table \<^verbatim>\<open>this.encryptedProperties\<close> of the constructor, as it is written there.\<close>

fun encryptedProperties :: "ServiceType \<Rightarrow> string list" where
  "encryptedProperties Endpoint = [''appPassword'']"
| "encryptedProperties AzureBotService = [''appPassord'']"
| "encryptedProperties Luis = [''authoringKey'', ''subscriptionKey'']"
| "encryptedProperties QnA = [''subscriptionKey'']"
| "encryptedProperties Dispatch = [''authoringKey'', ''subscriptionKey'']"

definition getEncryptedProperties :: "ServiceType \<Rightarrow> string list" where
  "getEncryptedProperties t = encryptedProperties t"

text \<open>The assignment \<^verbatim>\<open>service[prop] = v\<close> on the object at \<open>r\<close>.\<close>

definition setProp :: "ref \<Rightarrow> string \<Rightarrow> string option \<Rightarrow> state \<Rightarrow> state" where
  "setProp r p v w = w\<lparr>heap := (heap w)(r := (heap w r)\<lparr>props := (props (heap w r))(p := v)\<rparr>)\<rparr>"

text \<open>
  The \<^verbatim>\<open>for\<close> loop of \<^verbatim>\<open>encryptService\<close> over the property names, and the one of
  \<^verbatim>\<open>decryptService\<close>. An exception leaves the loop with the properties written so far.
\<close>

fun encryptProps :: "env \<Rightarrow> ref \<Rightarrow> string list \<Rightarrow> state \<Rightarrow> (error + unit) \<times> state" where
  "encryptProps E r [] w = (Inr (), w)"
| "encryptProps E r (prop # rest) w =
     (case encryptValue E w (props (heap w r) prop) of
        (Inl e, w') \<Rightarrow> (Inl e, w')
      | (Inr v, w') \<Rightarrow> encryptProps E r rest (setProp r prop v w'))"

fun decryptProps :: "env \<Rightarrow> ref \<Rightarrow> string list \<Rightarrow> state \<Rightarrow> (error + unit) \<times> state" where
  "decryptProps E r [] w = (Inr (), w)"
| "decryptProps E r (prop # rest) w =
     (case decryptValue E w (props (heap w r) prop) of
        (Inl e, w') \<Rightarrow> (Inl e, w')
      | (Inr v, w') \<Rightarrow> decryptProps E r rest (setProp r prop v w'))"

definition encryptService :: "env \<Rightarrow> state \<Rightarrow> ref \<Rightarrow> (error + ref) \<times> state" where
  "encryptService E w r =
     (case encryptProps E r (getEncryptedProperties (stype (heap w r))) w of
        (Inl e, w') \<Rightarrow> (Inl e, w')
      | (Inr u, w') \<Rightarrow> (Inr r, w'))"

definition decryptService :: "env \<Rightarrow> state \<Rightarrow> ref \<Rightarrow> (error + ref) \<times> state" where
  "decryptService E w r =
     (case decryptProps E r (getEncryptedProperties (stype (heap w r))) w of
        (Inl e, w') \<Rightarrow> (Inl e, w')
      | (Inr u, w') \<Rightarrow> (Inr r, w'))"

text \<open>The \<^verbatim>\<open>for ... of this.services\<close> loops of \<^verbatim>\<open>encryptAll\<close> and \<^verbatim>\<open>decryptAll\<close>.\<close>

fun encryptEach :: "env \<Rightarrow> ref list \<Rightarrow> state \<Rightarrow> (error + unit) \<times> state" where
  "encryptEach E [] w = (Inr (), w)"
| "encryptEach E (r # rs) w =
     (case encryptService E w r of
        (Inl e, w') \<Rightarrow> (Inl e, w')
      | (Inr u, w') \<Rightarrow> encryptEach E rs w')"

fun decryptEach :: "env \<Rightarrow> ref list \<Rightarrow> state \<Rightarrow> (error + unit) \<times> state" where
  "decryptEach E [] w = (Inr (), w)"
| "decryptEach E (r # rs) w =
     (case decryptService E w r of
        (Inl e, w') \<Rightarrow> (Inl e, w')
      | (Inr u, w') \<Rightarrow> decryptEach E rs w')"

definition encryptAll :: "env \<Rightarrow> state \<Rightarrow> (error + unit) \<times> state" where
  "encryptAll E w = encryptEach E (services w) w"

definition decryptAll :: "env \<Rightarrow> state \<Rightarrow> (error + unit) \<times> state" where
  "decryptAll E w = decryptEach E (services w) w"

section \<open>Saving\<close>

text \<open>
  The document \<^verbatim>\<open>Save\<close> hands to \<^verbatim>\<open>writeJson\<close>: the four fields, the services as the
  objects are at that moment.
\<close>

definition document :: "state \<Rightarrow> botfile" where
  "document w = \<lparr> f_name = name w, f_description = description w,
                  f_secretKey = secretKey w, f_services = map (heap w) (services w) \<rparr>"

text \<open>
  \<^verbatim>\<open>botpath || this.internal.location\<close>: an absent or empty \<^verbatim>\<open>botpath\<close> gives the
  location.
\<close>

definition targetPath :: "string option \<Rightarrow> state \<Rightarrow> string option" where
  "targetPath botpath w =
     (case botpath of
        None \<Rightarrow> location w
      | Some p \<Rightarrow> if p = [] then location w else Some p)"

text \<open>
  \<^verbatim>\<open>fsx.writeJson\<close>: it rejects an \<^verbatim>\<open>undefined\<close> path, the empty path and every path
  the file system does not accept a write to, and leaves the files as they were; a write
  that is accepted replaces the file.
\<close>

definition writeJson :: "env \<Rightarrow> string option \<Rightarrow> botfile \<Rightarrow> state \<Rightarrow> (error + unit) \<times> state" where
  "writeJson E path doc w =
     (case path of
        None \<Rightarrow> (Inl TypeError, w)
      | Some p \<Rightarrow> if p = [] \<or> \<not> writable E p then (Inl FileError, w)
                  else (Inr (), w\<lparr>files := (files w)(p \<mapsto> doc)\<rparr>))"

text \<open>
  \<^verbatim>\<open>Save\<close>. The method has no \<^verbatim>\<open>try\<close>: when \<^verbatim>\<open>encryptAll\<close> or the write throws,
  it ends there, and a write that is rejected leaves the services as \<^verbatim>\<open>encryptAll\<close> made
  them.
\<close>

definition Save :: "env \<Rightarrow> string option \<Rightarrow> state \<Rightarrow> (error + unit) \<times> state" where
  "Save E botpath w =
     (let hasSecret = (secretKey w \<noteq> []) in
      case (if hasSecret then encryptAll E w else (Inr (), w)) of
        (Inl e, w1) \<Rightarrow> (Inl e, w1)
      | (Inr u, w1) \<Rightarrow>
          (case writeJson E (targetPath botpath w1) (document w1) w1 of
             (Inl e, w2) \<Rightarrow> (Inl e, w2)
           | (Inr u, w2) \<Rightarrow> if hasSecret then decryptAll E w2 else (Inr (), w2)))"

section \<open>Connecting and disconnecting services\<close>

text \<open>The decimal digits of a count, as the template literal prints them.\<close>

fun show_nat :: "nat \<Rightarrow> string" where
  "show_nat n =
     (if n < 10 then [''0123456789'' ! n]
      else show_nat (n div 10) @ [''0123456789'' ! (n mod 10)])"

declare show_nat.simps [simp del]

text \<open>
  The name tried at a count: \<^verbatim>\<open>newService.name\<close> itself at count 1, and
  \<^verbatim>\<open>`${newService.name} (${nameCount})`\<close> above.
\<close>

definition candidate :: "string \<Rightarrow> nat \<Rightarrow> string" where
  "candidate base nameCount =
     (if nameCount > 1 then base @ '' ('' @ show_nat nameCount @ '')'' else base)"

text \<open>
  The \<^verbatim>\<open>while (true)\<close> loop of \<^verbatim>\<open>connectService\<close> over the names of the connected
  services. It ends: a name in the list bounds the number of digits of the count that can
  collide with it. The count is a natural number; the JavaScript number counts exactly up to
  \<open>2 ^ 53\<close>, far beyond the length of any array of services.
\<close>

function uniqueName :: "string list \<Rightarrow> string \<Rightarrow> nat \<Rightarrow> string" where
  "uniqueName names base nameCount =
     (let nm = candidate base nameCount
      in if filter (\<lambda>s. s = nm) names = [] then nm
         else uniqueName names base (nameCount + 1))"
  by pat_completeness auto
termination
proof (relation "measure (\<lambda>(names, base, n). 10 ^ (sum_list (map length names)) + 2 - n)")
  show "wf (measure (\<lambda>(names, base, n). 10 ^ (sum_list (map length names)) + 2 - n))"
    by simp
next
  fix names :: "string list" and base :: string and nameCount :: nat and nm :: string
  assume nm: "nm = candidate base nameCount"
    and hit: "filter (\<lambda>s. s = nm) names \<noteq> []"
  have digits: "n < 10 ^ length (show_nat n)" for n
  proof (induction n rule: show_nat.induct)
    case (1 n)
    show ?case
    proof (cases "n < 10")
      case True
      then show ?thesis by (simp add: show_nat.simps)
    next
      case False
      with 1 have "n div 10 < 10 ^ length (show_nat (n div 10))" by simp
      then have "n < 10 * 10 ^ length (show_nat (n div 10))" by linarith
      with False show ?thesis by (simp add: show_nat.simps [of n])
    qed
  qed
  have mem: "nm \<in> set names"
    using hit by (metis (mono_tags, lifting) filter_False)
  have len: "length nm \<le> sum_list (map length names)"
    using mem by (induction names) auto
  have "nameCount < 10 ^ (sum_list (map length names)) + 1"
  proof (cases "nameCount > 1")
    case True
    then have "length (show_nat nameCount) \<le> length nm"
      by (simp add: nm candidate_def)
    with len have "length (show_nat nameCount) \<le> sum_list (map length names)" by simp
    then have "(10::nat) ^ length (show_nat nameCount) \<le> 10 ^ (sum_list (map length names))"
      by (simp add: power_increasing)
    with digits [of nameCount] show ?thesis by linarith
  next
    case False
    have "(1::nat) \<le> 10 ^ (sum_list (map length names))" by simp
    with False show ?thesis by linarith
  qed
  then show "((names, base, nameCount + 1), (names, base, nameCount))
      \<in> measure (\<lambda>(names, base, n). 10 ^ (sum_list (map length names)) + 2 - n)"
    by simp
qed

declare uniqueName.simps [simp del]

text \<open>
  \<^verbatim>\<open>connectService\<close>. The argument is a reference to the caller's descriptor object: the
  name is written into that object, and that reference is pushed onto \<^verbatim>\<open>services\<close>.
\<close>

definition connectService :: "state \<Rightarrow> ref \<Rightarrow> (error + unit) \<times> state" where
  "connectService w newService =
     (if filter (\<lambda>s. sid (heap w s) = sid (heap w newService))
           (filter (\<lambda>s. stype (heap w s) = stype (heap w newService)) (services w)) \<noteq> []
      then (Inl (AlreadyConnected (sid (heap w newService))), w)
      else
        (let nm = uniqueName (map (\<lambda>s. sname (heap w s)) (services w))
                    (sname (heap w newService)) 1
         in (Inr (), w\<lparr>heap := (heap w)(newService := (heap w newService)\<lparr>sname := nm\<rparr>),
                       services := services w @ [newService]\<rparr>)))"

text \<open>
  The loop shared by the two disconnect methods: the index runs over the list of services,
  and the first service that meets the test is removed (\<^verbatim>\<open>removeAt(i)\<close>); \<open>None\<close> when
  the loop runs to the end.
\<close>

function removeFirst :: "(service \<Rightarrow> bool) \<Rightarrow> (ref \<Rightarrow> service) \<Rightarrow> ref list \<Rightarrow> nat \<Rightarrow> ref list option" where
  "removeFirst test h svs i =
     (if i < length svs then
        (if test (h (svs ! i)) then Some (take i svs @ drop (Suc i) svs)
         else removeFirst test h svs (i + 1))
      else None)"
  by pat_completeness auto
termination
  by (relation "measure (\<lambda>(test, h, svs, i). length svs - i)") auto

declare removeFirst.simps [simp del]

definition disconnectServiceByNameOrId :: "state \<Rightarrow> string \<Rightarrow> (error + unit) \<times> state" where
  "disconnectServiceByNameOrId w nameOrId =
     (case removeFirst (\<lambda>service. sid service = nameOrId \<or> sname service = nameOrId)
             (heap w) (services w) 0 of
        Some svs \<Rightarrow> (Inr (), w\<lparr>services := svs\<rparr>)
      | None \<Rightarrow> (Inl (NotFound nameOrId), w))"

definition disconnectService :: "state \<Rightarrow> ServiceType \<Rightarrow> string \<Rightarrow> (error + unit) \<times> state" where
  "disconnectService w t i =
     (case removeFirst (\<lambda>service. stype service = t \<and> sid service = i)
             (heap w) (services w) 0 of
        Some svs \<Rightarrow> (Inr (), w\<lparr>services := svs\<rparr>)
      | None \<Rightarrow> (Inr (), w))"

section \<open>What encryption does to the store\<close>

text \<open>
  The notions the theorems about \<^verbatim>\<open>Save\<close> are stated with. A secret is valid for a store
  with a verifier when it is the non-empty secret of the store and either validation has
  already succeeded or the verifier decrypts under it.
\<close>

definition valid_secret :: "env \<Rightarrow> string \<Rightarrow> state \<Rightarrow> bool" where
  "valid_secret E k w \<longleftrightarrow>
     secret w = Some k \<and> k \<noteq> [] \<and> secretKey w \<noteq> []
     \<and> (secretValidated w \<or> aes_decrypt E k (secretKey w) \<noteq> None)"

text \<open>
  What a run of the encryption or decryption methods leaves alone: every field of the
  instance but the object store, and the validated flag, which is never reset.
\<close>

definition frame :: "state \<Rightarrow> state \<Rightarrow> bool" where
  "frame w w' \<longleftrightarrow>
     secret w' = secret w \<and> location w' = location w \<and> name w' = name w
     \<and> secretKey w' = secretKey w \<and> description w' = description w
     \<and> services w' = services w \<and> files w' = files w
     \<and> (secretValidated w \<longrightarrow> secretValidated w')"

text \<open>
  The value \<^verbatim>\<open>encryptValue\<close> returns under a valid secret \<open>k\<close>, the descriptor with the
  properties of its type's row of the table encrypted, and the object store after the
  descriptors of a list have been encrypted one after the other.
\<close>

definition encrypted_value :: "env \<Rightarrow> string \<Rightarrow> string option \<Rightarrow> string option" where
  "encrypted_value E k val =
     (case val of None \<Rightarrow> None
      | Some v \<Rightarrow> if v = [] then Some [] else Some (aes_encrypt E k v))"

definition encrypted_service :: "env \<Rightarrow> string \<Rightarrow> service \<Rightarrow> service" where
  "encrypted_service E k s =
     s\<lparr>props := (\<lambda>p. if p \<in> set (encryptedProperties (stype s))
                      then encrypted_value E k (props s p) else props s p)\<rparr>"

fun encrypted_heap :: "env \<Rightarrow> string \<Rightarrow> ref list \<Rightarrow> (ref \<Rightarrow> service) \<Rightarrow> (ref \<Rightarrow> service)" where
  "encrypted_heap E k [] h = h"
| "encrypted_heap E k (r # rs) h = encrypted_heap E k rs (h(r := encrypted_service E k (h r)))"

text \<open>
  The spec's table of sensitive fields: \<^verbatim>\<open>appPassword\<close> for an endpoint and for a bot
  service, \<^verbatim>\<open>authoringKey\<close> and \<^verbatim>\<open>subscriptionKey\<close> for language understanding and for
  dispatch, \<^verbatim>\<open>subscriptionKey\<close> for a knowledge base; and a descriptor with each of its
  sensitive fields encrypted under \<open>k\<close>. They follow the spec's words, to be compared with
  \<open>encryptedProperties\<close>, the table of the code.
\<close>

fun sensitiveFields :: "ServiceType \<Rightarrow> string list" where
  "sensitiveFields Endpoint = [''appPassword'']"
| "sensitiveFields AzureBotService = [''appPassword'']"
| "sensitiveFields Luis = [''authoringKey'', ''subscriptionKey'']"
| "sensitiveFields QnA = [''subscriptionKey'']"
| "sensitiveFields Dispatch = [''authoringKey'', ''subscriptionKey'']"

definition sensitive_encrypted :: "env \<Rightarrow> string \<Rightarrow> service \<Rightarrow> service" where
  "sensitive_encrypted E k s =
     s\<lparr>props := (\<lambda>p. if p \<in> set (sensitiveFields (stype s))
                      then encrypted_value E k (props s p) else props s p)\<rparr>"

text \<open>Whether \<^verbatim>\<open>fsx.writeJson\<close> accepts the write to a target path.\<close>

definition write_accepted :: "env \<Rightarrow> string option \<Rightarrow> bool" where
  "write_accepted E path =
     (case path of None \<Rightarrow> False | Some p \<Rightarrow> p \<noteq> [] \<and> writable E p)"

text \<open>
  The number a string of decimal digits denotes, to say what \<open>show_nat\<close> prints.
\<close>

definition digit_value :: "char \<Rightarrow> nat" where
  "digit_value c = of_char c - 48"

definition decimal_value :: "string \<Rightarrow> nat" where
  "decimal_value s = foldl (\<lambda>a c. 10 * a + digit_value c) 0 s"

section \<open>Concrete stores\<close>

text \<open>A descriptor with nothing set, to fill the object store.\<close>

definition blank :: service where
  "blank = \<lparr> stype = Endpoint, sid = [], sname = [], props = (\<lambda>p. None) \<rparr>"

text \<open>
  A store as the constructor leaves it when handed the secret \<^verbatim>\<open>abc\<close>, bound to a
  location: no verifier, no service, nothing validated.
\<close>

definition store0 :: state where
  "store0 = \<lparr> secretValidated = False, secret = Some ''abc'', location = Some ''my.bot'',
               name = ''bot'', secretKey = [], description = [], services = [],
               heap = (\<lambda>r. blank), files = Map.empty \<rparr>"

definition svc :: "ServiceType \<Rightarrow> string \<Rightarrow> string \<Rightarrow> service" where
  "svc t i n = \<lparr> stype = t, sid = i, sname = n, props = (\<lambda>p. None) \<rparr>"

definition fooStore :: state where
  "fooStore = store0\<lparr>services := [0],
     heap := (\<lambda>r. blank)(0 := svc Luis ''a'' ''Foo'', 1 := svc Luis ''b'' ''Foo'',
                          2 := svc QnA ''c'' ''Foo'', 3 := svc Luis ''a'' ''Bar'')\<rparr>"

text \<open>
  Ten connected services named \<^verbatim>\<open>Foo\<close>, \<^verbatim>\<open>Foo (2)\<close> up to \<^verbatim>\<open>Foo (10)\<close>, and at
  reference 10 a descriptor named \<^verbatim>\<open>Foo\<close> that is not connected.
\<close>

definition tenNames :: "string list" where
  "tenNames = [''Foo'', ''Foo (2)'', ''Foo (3)'', ''Foo (4)'', ''Foo (5)'', ''Foo (6)'',
               ''Foo (7)'', ''Foo (8)'', ''Foo (9)'', ''Foo (10)'']"

definition tenIds :: "string list" where
  "tenIds = [''a'', ''b'', ''c'', ''d'', ''e'', ''f'', ''g'', ''h'', ''i'', ''j'']"

definition tenStore :: state where
  "tenStore = store0\<lparr>services := [0, 1, 2, 3, 4, 5, 6, 7, 8, 9],
     heap := (\<lambda>r. if r < 10 then svc Luis (tenIds ! r) (tenNames ! r)
                   else svc Luis ''k'' ''Foo'')\<rparr>"

definition listStore :: state where
  "listStore = fooStore\<lparr>services := [0, 1, 2]\<rparr>"

definition pwHeap :: "ref \<Rightarrow> service" where
  "pwHeap = (\<lambda>r. blank)
     (0 := (svc AzureBotService ''bot1'' ''my bot'')\<lparr>props := (\<lambda>p. None)(''appPassword'' := Some ''pw'')\<rparr>,
      1 := (svc Endpoint ''ep1'' ''my endpoint'')\<lparr>props := (\<lambda>p. None)(''appPassword'' := Some ''pw'')\<rparr>)"

definition keyedStore :: state where
  "keyedStore = store0\<lparr>secretKey := ''abc|6ec0bd7f-11c0-43da-975e-2a8ad9ebae0b'',
                       services := [0, 1], heap := pwHeap\<rparr>"

definition plainStore :: state where
  "plainStore = store0\<lparr>services := [0, 1], heap := pwHeap\<rparr>"

definition noSecretStore :: state where
  "noSecretStore = keyedStore\<lparr>secret := None\<rparr>"

section \<open>Validation of the secret\<close>

lemma cipher_ok_toy: "cipher_ok toy"
  by (simp add: cipher_ok_def toy_def)

text \<open>
  C4. On a store whose verifier \<open>secretKey\<close> is empty, whose secret is not empty and on
  which validation has not yet succeeded, \<^verbatim>\<open>validateSecretKey\<close> succeeds, stores the
  encryption of the generated token under the secret as the verifier, which is not empty,
  and sets the validated flag; on every store with the flag set, and so on the store the
  first call leaves, the method returns at once with no error and no change.
\<close>

theorem validateSecretKey_bootstrap:
  assumes "cipher_ok E"
    and "secretKey w = []" and "secret w = Some k" and "k \<noteq> []"
    and "\<not> secretValidated w"
  shows "validateSecretKey E w =
           (Inr (), w\<lparr>secretKey := aes_encrypt E k (uuid E), secretValidated := True\<rparr>)
         \<and> secretKey (snd (validateSecretKey E w)) \<noteq> []
         \<and> secretValidated (snd (validateSecretKey E w))
         \<and> validateSecretKey E (snd (validateSecretKey E w))
             = (Inr (), snd (validateSecretKey E w))
         \<and> (\<forall>w2. secretValidated w2 \<longrightarrow> validateSecretKey E w2 = (Inr (), w2))"
  using assms
  by (simp add: validateSecretKey_def internalEncrypt_def cipher_ok_def)

theorem validateSecretKey_bootstrap_witness:
  "cipher_ok toy \<and> secretKey store0 = [] \<and> secret store0 = Some ''abc'' \<and> ''abc'' \<noteq> []
   \<and> \<not> secretValidated store0
   \<and> validateSecretKey toy store0 =
       (Inr (), store0\<lparr>secretKey := ''abc|6ec0bd7f-11c0-43da-975e-2a8ad9ebae0b'',
                       secretValidated := True\<rparr>)"
  using validateSecretKey_bootstrap [of toy store0 "''abc''"] cipher_ok_toy
  by (simp add: store0_def toy_def)

text \<open>Validation under a valid secret, and the two methods on the values it guards.\<close>

lemma validateSecretKey_valid:
  assumes "secret w = Some k" and "k \<noteq> []" and "secretKey w \<noteq> []"
    and "secretValidated w \<or> aes_decrypt E k (secretKey w) \<noteq> None"
  shows "validateSecretKey E w = (Inr (), w\<lparr>secretValidated := True\<rparr>)"
  using assms by (auto simp add: validateSecretKey_def)

lemma encryptValue_valid:
  assumes "secret w = Some k" and "k \<noteq> []" and "secretKey w \<noteq> []"
    and "secretValidated w \<or> aes_decrypt E k (secretKey w) \<noteq> None"
    and "v \<noteq> []"
  shows "encryptValue E w (Some v) = (Inr (Some (aes_encrypt E k v)), w\<lparr>secretValidated := True\<rparr>)"
  using assms(1,3,5) validateSecretKey_valid [OF assms(1-4)]
  by (simp add: encryptValue_def internalEncrypt_def)

section \<open>Clearing the secret\<close>

text \<open>
  C1, as the code has it. \<^verbatim>\<open>clearSecret\<close> fails with the error of \<^verbatim>\<open>validateSecretKey\<close>
  when validation fails, and leaves the store as it was. When validation succeeds it empties
  the verifier \<open>secretKey\<close> and nothing else: the secret of the caller and the validated
  flag stay. On the store it leaves, \<^verbatim>\<open>encryptValue\<close> and \<^verbatim>\<open>decryptValue\<close> return every
  value unchanged and raise nothing, since both encrypt only under a verifier that is not
  empty. The secret-required error is what the two methods raise on a non-empty value when
  no secret was supplied, validation has not succeeded and the verifier is not empty.
\<close>

theorem clearSecret_behaviour:
  "(\<forall>e. fst (validateSecretKey E w) = Inl e \<longrightarrow> clearSecret E w = (Inl e, w))
   \<and> (fst (validateSecretKey E w) = Inr () \<longrightarrow>
        fst (clearSecret E w) = Inr ()
        \<and> (snd (validateSecretKey E w))\<lparr>secretKey := []\<rparr> = snd (clearSecret E w)
        \<and> secretKey (snd (clearSecret E w)) = []
        \<and> secret (snd (clearSecret E w)) = secret w
        \<and> secretValidated (snd (clearSecret E w))
        \<and> (\<forall>v. encryptValue E (snd (clearSecret E w)) v = (Inr v, snd (clearSecret E w))
              \<and> decryptValue E (snd (clearSecret E w)) v = (Inr v, snd (clearSecret E w))))
   \<and> ((secret w = None \<or> secret w = Some []) \<and> \<not> secretValidated w \<and> secretKey w \<noteq> []
        \<and> v \<noteq> [] \<longrightarrow>
        encryptValue E w (Some v) = (Inl SecretMissing, w)
        \<and> decryptValue E w (Some v) = (Inl SecretMissing, w))"
  by (auto simp add: clearSecret_def validateSecretKey_def internalEncrypt_def encryptValue_def
      decryptValue_def split: option.splits sum.splits if_splits prod.splits)

theorem clearSecret_behaviour_witness:
  "fst (validateSecretKey toy store0) = Inr ()
   \<and> fst (clearSecret toy store0) = Inr ()
   \<and> secretKey (snd (clearSecret toy store0)) = []
   \<and> secret (snd (clearSecret toy store0)) = Some ''abc''
   \<and> encryptValue toy (snd (clearSecret toy store0)) (Some ''pw'')
        = (Inr (Some ''pw''), snd (clearSecret toy store0))
   \<and> fst (validateSecretKey toy noSecretStore) = Inl SecretMissing
   \<and> clearSecret toy noSecretStore = (Inl SecretMissing, noSecretStore)
   \<and> secret noSecretStore = None \<and> \<not> secretValidated noSecretStore
   \<and> secretKey noSecretStore \<noteq> []
   \<and> encryptValue toy noSecretStore (Some ''pw'') = (Inl SecretMissing, noSecretStore)
   \<and> decryptValue toy noSecretStore (Some ''pw'') = (Inl SecretMissing, noSecretStore)"
proof -
  have ok: "fst (validateSecretKey toy store0) = Inr ()"
    by (simp add: validateSecretKey_def internalEncrypt_def store0_def)
  have bad: "fst (validateSecretKey toy noSecretStore) = Inl SecretMissing"
    "secret noSecretStore = None" "\<not> secretValidated noSecretStore"
    "secretKey noSecretStore \<noteq> []"
    by (simp_all add: validateSecretKey_def noSecretStore_def keyedStore_def store0_def)
  have s: "secret store0 = Some ''abc''" by (simp add: store0_def)
  from ok bad s
    clearSecret_behaviour [where E = toy and w = store0 and v = "''pw''"]
    clearSecret_behaviour [where E = toy and w = noSecretStore and v = "''pw''"]
  show ?thesis by simp
qed

text \<open>
  C1, as the claim states it, fails: on the store \<open>store0\<close> with the secret \<^verbatim>\<open>abc\<close>,
  \<^verbatim>\<open>clearSecret\<close> completes, the secret is still \<^verbatim>\<open>abc\<close> afterwards, and
  \<^verbatim>\<open>encryptValue\<close> and \<^verbatim>\<open>decryptValue\<close> on the non-empty value \<^verbatim>\<open>pw\<close> return it and
  raise no error.
\<close>

theorem clearSecret_counterexample:
  "fst (clearSecret toy store0) = Inr ()
   \<and> secret (snd (clearSecret toy store0)) = Some ''abc''
   \<and> fst (encryptValue toy (snd (clearSecret toy store0)) (Some ''pw'')) = Inr (Some ''pw'')
   \<and> fst (decryptValue toy (snd (clearSecret toy store0)) (Some ''pw'')) = Inr (Some ''pw'')"
  by (simp add: clearSecret_def validateSecretKey_def internalEncrypt_def encryptValue_def
      decryptValue_def store0_def toy_def)

section \<open>The sensitive property of a bot service\<close>

text \<open>
  Whatever the cipher and the store, \<^verbatim>\<open>encryptService\<close> on a bot service returns with the
  property \<^verbatim>\<open>appPassword\<close> of the object as it found it.
\<close>

lemma encryptValue_heap: "heap (snd (encryptValue E w v)) = heap w"
  by (auto simp add: encryptValue_def validateSecretKey_def internalEncrypt_def
      split: option.splits sum.splits prod.splits if_splits)

lemma encryptService_abs_appPassword:
  assumes "stype (heap w r) = AzureBotService"
  shows "props (heap (snd (encryptService E w r)) r) ''appPassword''
           = props (heap w r) ''appPassword''"
proof -
  obtain res w' where ev: "encryptValue E w (props (heap w r) ''appPassord'') = (res, w')"
    by fastforce
  with encryptValue_heap [of E w "props (heap w r) ''appPassord''"]
  have h: "heap w' = heap w" by simp
  show ?thesis
    using assms ev h
    by (cases res) (simp_all add: encryptService_def getEncryptedProperties_def setProp_def)
qed

text \<open>
  C2 does not hold of the code. The row of \<^verbatim>\<open>abs\<close> in the table of encrypted properties
  names \<^verbatim>\<open>appPassord\<close>, so \<^verbatim>\<open>encryptService\<close> on a bot service leaves its
  \<^verbatim>\<open>appPassword\<close> as it is: on \<open>keyedStore\<close>, whose secret \<^verbatim>\<open>abc\<close> is valid, the bot
  service at 0 keeps the password \<^verbatim>\<open>pw\<close> in plaintext, while the endpoint at 1 with the
  same password has it replaced by the ciphertext.
\<close>

theorem abs_appPassword_not_encrypted:
  "fst (encryptService toy keyedStore 0) = Inr 0
   \<and> props (heap (snd (encryptService toy keyedStore 0)) 0) ''appPassword'' = Some ''pw''
   \<and> fst (encryptService toy keyedStore 1) = Inr 1
   \<and> props (heap (snd (encryptService toy keyedStore 1)) 1) ''appPassword'' = Some ''abc|pw''"
  by (simp add: encryptService_def getEncryptedProperties_def encryptValue_def
      validateSecretKey_def internalEncrypt_def setProp_def keyedStore_def store0_def
      pwHeap_def svc_def toy_def)

section \<open>Saving the store\<close>

lemma frame_refl: "frame w w"
  by (simp add: frame_def)

lemma frame_trans: "frame w w1 \<Longrightarrow> frame w1 w2 \<Longrightarrow> frame w w2"
  by (simp add: frame_def)

lemma frame_valid: "frame w w' \<Longrightarrow> valid_secret E k w \<Longrightarrow> valid_secret E k w'"
  by (auto simp add: frame_def valid_secret_def)

lemma frame_setProp: "frame w (setProp r p v w)"
  by (simp add: frame_def setProp_def)

lemma encryptValue_frame:
  assumes "valid_secret E k w"
  shows "\<exists>w'. encryptValue E w v = (Inr (encrypted_value E k v), w') \<and> frame w w' \<and> heap w' = heap w"
proof (cases "v = None \<or> v = Some []")
  case True
  then have "encryptValue E w v = (Inr v, w)" by (auto simp add: encryptValue_def)
  moreover from True have "encrypted_value E k v = v" by (auto simp add: encrypted_value_def)
  ultimately show ?thesis by (simp add: frame_refl)
next
  case False
  then obtain s where s: "v = Some s" "s \<noteq> []" by auto
  from assms have "encryptValue E w (Some s)
      = (Inr (Some (aes_encrypt E k s)), w\<lparr>secretValidated := True\<rparr>)"
    using encryptValue_valid [where w = w and k = k and v = s and E = E] s(2) by (auto simp add: valid_secret_def)
  with s show ?thesis by (simp add: encrypted_value_def frame_def)
qed

lemma decryptValue_frame:
  assumes "cipher_ok E" and "valid_secret E k w"
  shows "\<exists>w'. decryptValue E w (encrypted_value E k v) = (Inr v, w') \<and> frame w w' \<and> heap w' = heap w"
proof (cases "v = None \<or> v = Some []")
  case True
  then have "encrypted_value E k v = v" by (auto simp add: encrypted_value_def)
  moreover from True have "decryptValue E w v = (Inr v, w)" by (auto simp add: decryptValue_def)
  ultimately show ?thesis by (simp add: frame_refl)
next
  case False
  then obtain s where s: "v = Some s" "s \<noteq> []" by auto
  let ?c = "aes_encrypt E k s"
  from assms(1) have c: "aes_decrypt E k ?c = Some s" "?c \<noteq> []"
    by (simp_all add: cipher_ok_def)
  from assms(2) have vs: "validateSecretKey E w = (Inr (), w\<lparr>secretValidated := True\<rparr>)"
    using validateSecretKey_valid [where w = w and k = k and E = E] by (auto simp add: valid_secret_def)
  from assms(2) have "secret w = Some k" "secretKey w \<noteq> []" by (simp_all add: valid_secret_def)
  with c vs have "decryptValue E w (Some ?c) = (Inr (Some s), w\<lparr>secretValidated := True\<rparr>)"
    by (simp add: decryptValue_def internalDecrypt_def)
  with s show ?thesis by (simp add: encrypted_value_def frame_def)
qed

lemma encryptProps_frame:
  assumes "valid_secret E k w" and "distinct ps"
  shows "\<exists>w'. encryptProps E r ps w = (Inr (), w') \<and> frame w w'
           \<and> heap w' = (heap w)(r := (heap w r)\<lparr>props :=
                (\<lambda>p. if p \<in> set ps then encrypted_value E k (props (heap w r) p)
                      else props (heap w r) p)\<rparr>)"
  using assms
proof (induction ps arbitrary: w)
  case Nil
  then show ?case by (simp add: frame_refl)
next
  case (Cons p ps)
  from encryptValue_frame [OF Cons.prems(1)] obtain w1 where
    w1: "encryptValue E w (props (heap w r) p) = (Inr (encrypted_value E k (props (heap w r) p)), w1)"
      "frame w w1" "heap w1 = heap w"
    by blast
  let ?w2 = "setProp r p (encrypted_value E k (props (heap w r) p)) w1"
  have f2: "frame w ?w2" using w1(2) frame_setProp frame_trans by blast
  then have v2: "valid_secret E k ?w2" using Cons.prems(1) frame_valid by blast
  from Cons.prems(2) have d: "distinct ps" and np: "p \<notin> set ps" by simp_all
  from Cons.IH [OF v2 d] obtain w' where
    w': "encryptProps E r ps ?w2 = (Inr (), w')" "frame ?w2 w'"
      "heap w' = (heap ?w2)(r := (heap ?w2 r)\<lparr>props :=
                (\<lambda>q. if q \<in> set ps then encrypted_value E k (props (heap ?w2 r) q)
                      else props (heap ?w2 r) q)\<rparr>)"
    by blast
  have run: "encryptProps E r (p # ps) w = (Inr (), w')"
    using w1(1) w'(1) by simp
  have fr: "frame w w'" using f2 w'(2) frame_trans by blast
  have hp: "heap w' = (heap w)(r := (heap w r)\<lparr>props :=
                (\<lambda>q. if q \<in> set (p # ps) then encrypted_value E k (props (heap w r) q)
                      else props (heap w r) q)\<rparr>)"
    using np unfolding w'(3) by (auto simp add: setProp_def w1(3) fun_eq_iff)
  from run fr hp show ?case by blast
qed

lemma distinct_encryptedProperties: "distinct (encryptedProperties t)"
  by (cases t) simp_all

lemma encryptService_frame:
  assumes "valid_secret E k w"
  shows "\<exists>w'. encryptService E w r = (Inr r, w') \<and> frame w w'
           \<and> heap w' = (heap w)(r := encrypted_service E k (heap w r))"
proof -
  from encryptProps_frame [OF assms distinct_encryptedProperties, of r "stype (heap w r)"]
  obtain w' where "encryptProps E r (encryptedProperties (stype (heap w r))) w = (Inr (), w')"
    "frame w w'"
    "heap w' = (heap w)(r := (heap w r)\<lparr>props :=
                (\<lambda>p. if p \<in> set (encryptedProperties (stype (heap w r)))
                      then encrypted_value E k (props (heap w r) p)
                      else props (heap w r) p)\<rparr>)"
    by blast
  then show ?thesis
    by (simp add: encryptService_def getEncryptedProperties_def encrypted_service_def)
qed

lemma encryptEach_frame:
  assumes "valid_secret E k w"
  shows "\<exists>w'. encryptEach E rs w = (Inr (), w') \<and> frame w w'
           \<and> heap w' = encrypted_heap E k rs (heap w)"
  using assms
proof (induction rs arbitrary: w)
  case Nil
  then show ?case by (simp add: frame_refl)
next
  case (Cons r rs)
  from encryptService_frame [OF Cons.prems] obtain w1 where
    w1: "encryptService E w r = (Inr r, w1)" "frame w w1"
      "heap w1 = (heap w)(r := encrypted_service E k (heap w r))"
    by blast
  from frame_valid [OF w1(2) Cons.prems] have "valid_secret E k w1" .
  from Cons.IH [OF this] obtain w' where
    w': "encryptEach E rs w1 = (Inr (), w')" "frame w1 w'"
      "heap w' = encrypted_heap E k rs (heap w1)"
    by blast
  from w1 w' frame_trans [OF w1(2) w'(2)] show ?case by simp
qed

lemma decryptProps_frame:
  assumes "cipher_ok E" and "valid_secret E k w" and "distinct ps"
    and "\<forall>p \<in> set ps. props (heap w r) p = encrypted_value E k (f p)"
  shows "\<exists>w'. decryptProps E r ps w = (Inr (), w') \<and> frame w w'
           \<and> heap w' = (heap w)(r := (heap w r)\<lparr>props :=
                (\<lambda>p. if p \<in> set ps then f p else props (heap w r) p)\<rparr>)"
  using assms(2-4)
proof (induction ps arbitrary: w)
  case Nil
  then show ?case by (simp add: frame_refl)
next
  case (Cons p ps)
  from Cons.prems(3) have cur: "props (heap w r) p = encrypted_value E k (f p)" by simp
  from decryptValue_frame [OF assms(1) Cons.prems(1), of "f p"] cur obtain w1 where
    w1: "decryptValue E w (props (heap w r) p) = (Inr (f p), w1)"
      "frame w w1" "heap w1 = heap w"
    by auto
  let ?w2 = "setProp r p (f p) w1"
  have f2: "frame w ?w2" using w1(2) frame_setProp frame_trans by blast
  then have v2: "valid_secret E k ?w2" using Cons.prems(1) frame_valid by blast
  from Cons.prems(2) have d: "distinct ps" and np: "p \<notin> set ps" by simp_all
  have rest: "\<forall>q \<in> set ps. props (heap ?w2 r) q = encrypted_value E k (f q)"
    using Cons.prems(3) np by (auto simp add: setProp_def w1(3))
  from Cons.IH [OF v2 d rest] obtain w' where
    w': "decryptProps E r ps ?w2 = (Inr (), w')" "frame ?w2 w'"
      "heap w' = (heap ?w2)(r := (heap ?w2 r)\<lparr>props :=
                (\<lambda>q. if q \<in> set ps then f q else props (heap ?w2 r) q)\<rparr>)"
    by blast
  have run: "decryptProps E r (p # ps) w = (Inr (), w')"
    using w1(1) w'(1) by simp
  have fr: "frame w w'" using f2 w'(2) frame_trans by blast
  have hp: "heap w' = (heap w)(r := (heap w r)\<lparr>props :=
                (\<lambda>q. if q \<in> set (p # ps) then f q else props (heap w r) q)\<rparr>)"
    using np unfolding w'(3) by (auto simp add: setProp_def w1(3) fun_eq_iff)
  from run fr hp show ?case by blast
qed

lemma decryptService_frame:
  assumes "cipher_ok E" and "valid_secret E k w" and "heap w r = encrypted_service E k s"
  shows "\<exists>w'. decryptService E w r = (Inr r, w') \<and> frame w w' \<and> heap w' = (heap w)(r := s)"
proof -
  have t: "stype (heap w r) = stype s"
    by (simp add: assms(3) encrypted_service_def)
  have cur: "\<forall>p \<in> set (encryptedProperties (stype s)).
               props (heap w r) p = encrypted_value E k (props s p)"
    by (simp add: assms(3) encrypted_service_def)
  from decryptProps_frame [OF assms(1,2) distinct_encryptedProperties cur]
  obtain w' where w': "decryptProps E r (encryptedProperties (stype s)) w = (Inr (), w')"
    "frame w w'"
    "heap w' = (heap w)(r := (heap w r)\<lparr>props :=
                (\<lambda>p. if p \<in> set (encryptedProperties (stype s)) then props s p
                      else props (heap w r) p)\<rparr>)"
    by blast
  have "(heap w r)\<lparr>props := (\<lambda>p. if p \<in> set (encryptedProperties (stype s)) then props s p
                      else props (heap w r) p)\<rparr> = s"
    by (simp add: assms(3) encrypted_service_def fun_eq_iff)
  with w' t show ?thesis
    by (simp add: decryptService_def getEncryptedProperties_def)
qed

lemma encrypted_heap_at:
  "encrypted_heap E k rs h q = ((encrypted_service E k) ^^ count_list rs q) (h q)"
proof (induction rs arbitrary: h)
  case Nil
  then show ?case by simp
next
  case (Cons r rs)
  then show ?case by (simp add: funpow_swap1)
qed

lemma decryptEach_frame:
  assumes "cipher_ok E" and "valid_secret E k w" and "heap w = encrypted_heap E k rs h"
  shows "\<exists>w'. decryptEach E rs w = (Inr (), w') \<and> frame w w' \<and> heap w' = h"
  using assms(2,3)
proof (induction rs arbitrary: w h)
  case Nil
  then show ?case by (simp add: frame_refl)
next
  case (Cons r rs)
  let ?s = "((encrypted_service E k) ^^ count_list rs r) (h r)"
  have at_r: "heap w r = encrypted_service E k ?s"
    by (simp add: Cons.prems(2) encrypted_heap_at funpow_swap1)
  from decryptService_frame [OF assms(1) Cons.prems(1) at_r] obtain w1 where
    w1: "decryptService E w r = (Inr r, w1)" "frame w w1" "heap w1 = (heap w)(r := ?s)"
    by blast
  have h1: "heap w1 = encrypted_heap E k rs h"
    unfolding w1(3) by (rule ext) (simp add: Cons.prems(2) encrypted_heap_at)
  from frame_valid [OF w1(2) Cons.prems(1)] have "valid_secret E k w1" .
  from Cons.IH [OF this h1] obtain w' where
    w': "decryptEach E rs w1 = (Inr (), w')" "frame w1 w'" "heap w' = h"
    by blast
  from w1 w' frame_trans [OF w1(2) w'(2)] show ?case by simp
qed

lemma encrypted_service_sensitive:
  "stype s \<noteq> AzureBotService \<Longrightarrow> encrypted_service E k s = sensitive_encrypted E k s"
  by (cases "stype s") (simp_all add: encrypted_service_def sensitive_encrypted_def)

lemma stype_sensitive_encrypted: "stype (((sensitive_encrypted E k) ^^ n) s) = stype s"
  by (induction n) (simp_all add: sensitive_encrypted_def)

lemma encrypted_service_sensitive_funpow:
  "stype s \<noteq> AzureBotService \<Longrightarrow>
     ((encrypted_service E k) ^^ n) s = ((sensitive_encrypted E k) ^^ n) s"
proof (induction n)
  case 0
  then show ?case by simp
next
  case (Suc n)
  have "stype (((sensitive_encrypted E k) ^^ n) s) \<noteq> AzureBotService"
    using Suc.prems by (simp add: stype_sensitive_encrypted)
  then show ?case
    using Suc by (simp add: encrypted_service_sensitive)
qed

lemma targetPath_cases:
  "targetPath botpath w = (if botpath = None \<or> botpath = Some [] then location w else botpath)"
  by (auto simp add: targetPath_def split: option.splits)

lemma writeJson_accepted:
  "write_accepted E (Some p) \<Longrightarrow>
     writeJson E (Some p) doc w = (Inr (), w\<lparr>files := (files w)(p \<mapsto> doc)\<rparr>)"
  by (simp add: writeJson_def write_accepted_def)

lemma writeJson_rejected:
  "\<not> write_accepted E path \<Longrightarrow> \<exists>e. writeJson E path doc w = (Inl e, w)"
  by (auto simp add: writeJson_def write_accepted_def split: option.splits)

text \<open>
  What a rejected write leaves behind on a store with a verifier and a valid secret:
  \<^verbatim>\<open>Save\<close> fails with the error of the write, and the state is the one \<^verbatim>\<open>encryptAll\<close>
  produced, the services encrypted, since \<^verbatim>\<open>decryptAll\<close> is not reached.
\<close>

lemma Save_rejected_write:
  assumes "valid_secret E k w" and "\<not> write_accepted E (targetPath botpath w)"
  shows "\<exists>e w1. encryptAll E w = (Inr (), w1) \<and> Save E botpath w = (Inl e, w1)
           \<and> heap w1 = encrypted_heap E k (services w) (heap w)"
proof -
  from encryptEach_frame [OF assms(1), of "services w"] obtain w1 where
    w1: "encryptAll E w = (Inr (), w1)" "frame w w1"
      "heap w1 = encrypted_heap E k (services w) (heap w)"
    by (auto simp add: encryptAll_def)
  have "targetPath botpath w1 = targetPath botpath w"
    using w1(2) by (simp add: targetPath_cases frame_def)
  with assms(2) writeJson_rejected [of E "targetPath botpath w1" "document w1" w1]
  obtain e where "writeJson E (targetPath botpath w1) (document w1) w1 = (Inl e, w1)"
    by auto
  with assms(1) w1(1) have "Save E botpath w = (Inl e, w1)"
    by (simp add: Save_def valid_secret_def)
  with w1(1,3) show ?thesis by blast
qed

text \<open>
  C3, as the code has it. The target path of \<^verbatim>\<open>Save\<close> is \<^verbatim>\<open>botpath\<close>, or the location of
  the store when \<^verbatim>\<open>botpath\<close> is absent or empty, and \<^verbatim>\<open>Save\<close> is gated by the verifier
  \<open>secretKey\<close>, not by the secret.
  With an empty verifier, whether or not a secret was supplied: when the write is accepted,
  the document of the store as it is has been written and nothing else has changed; when it
  is rejected, \<^verbatim>\<open>Save\<close> fails and the store is as it was.
  With a verifier and a valid secret \<open>k\<close> (not empty, and the verifier decrypts under it or
  validation has succeeded), for a cipher whose decryption inverts its encryption:
  \<^verbatim>\<open>encryptAll\<close> succeeds; the document holds the name, the description, the verifier and
  the services as \<^verbatim>\<open>encryptAll\<close> leaves them, where every service that is not a bot service
  has each of its sensitive fields encrypted under \<open>k\<close>, once for each time the object
  occurs in the list; when the write is accepted, \<^verbatim>\<open>Save\<close> succeeds, that document has
  been written, and the object store is exactly as before the call, as is every field of
  the instance except the validated flag, which is never reset; when the write is rejected,
  \<^verbatim>\<open>Save\<close> fails. Of the sensitive field of a bot service in the document nothing is said
  here.
\<close>

theorem Save_behaviour:
  "targetPath botpath w = (if botpath = None \<or> botpath = Some [] then location w else botpath)
   \<and> (secretKey w = [] \<longrightarrow>
        (targetPath botpath w = Some p \<and> write_accepted E (Some p) \<longrightarrow>
           Save E botpath w = (Inr (), w\<lparr>files := (files w)(p \<mapsto> document w)\<rparr>))
        \<and> (\<not> write_accepted E (targetPath botpath w) \<longrightarrow>
             (\<exists>e. Save E botpath w = (Inl e, w))))
   \<and> (cipher_ok E \<and> secretKey w \<noteq> [] \<and> secret w = Some k \<and> k \<noteq> []
        \<and> (secretValidated w \<or> aes_decrypt E k (secretKey w) \<noteq> None) \<longrightarrow>
        (\<exists>w1. encryptAll E w = (Inr (), w1)
           \<and> document w1 =
                \<lparr> f_name = name w, f_description = description w, f_secretKey = secretKey w,
                  f_services = map (heap w1) (services w) \<rparr>
           \<and> (\<forall>r. stype (heap w r) \<noteq> AzureBotService \<longrightarrow>
                  heap w1 r = ((sensitive_encrypted E k) ^^ count_list (services w) r) (heap w r))
           \<and> (targetPath botpath w = Some p \<and> write_accepted E (Some p) \<longrightarrow>
                (\<exists>w2. Save E botpath w = (Inr (), w2)
                   \<and> files w2 = (files w)(p \<mapsto> document w1)
                   \<and> heap w2 = heap w
                   \<and> w2 = w\<lparr>secretValidated := secretValidated w2, files := files w2\<rparr>
                   \<and> (secretValidated w \<longrightarrow> secretValidated w2)))
           \<and> (\<not> write_accepted E (targetPath botpath w) \<longrightarrow>
                (\<exists>e. fst (Save E botpath w) = Inl e))))"
proof (intro conjI impI)
  show "targetPath botpath w = (if botpath = None \<or> botpath = Some [] then location w else botpath)"
    by (rule targetPath_cases)
next
  assume "secretKey w = []" and "targetPath botpath w = Some p \<and> write_accepted E (Some p)"
  then show "Save E botpath w = (Inr (), w\<lparr>files := (files w)(p \<mapsto> document w)\<rparr>)"
    by (simp add: Save_def writeJson_accepted)
next
  assume e: "secretKey w = []" and "\<not> write_accepted E (targetPath botpath w)"
  then obtain err where "writeJson E (targetPath botpath w) (document w) w = (Inl err, w)"
    using writeJson_rejected by blast
  with e show "\<exists>e. Save E botpath w = (Inl e, w)"
    by (simp add: Save_def)
next
  assume a: "cipher_ok E \<and> secretKey w \<noteq> [] \<and> secret w = Some k \<and> k \<noteq> []
            \<and> (secretValidated w \<or> aes_decrypt E k (secretKey w) \<noteq> None)"
  then have ok: "cipher_ok E" and v: "valid_secret E k w" by (simp_all add: valid_secret_def)
  from encryptEach_frame [OF v, of "services w"] obtain w1 where
    w1: "encryptAll E w = (Inr (), w1)" "frame w w1"
      "heap w1 = encrypted_heap E k (services w) (heap w)"
    by (auto simp add: encryptAll_def)
  have doc: "document w1 =
      \<lparr> f_name = name w, f_description = description w, f_secretKey = secretKey w,
        f_services = map (heap w1) (services w) \<rparr>"
    using w1(2) by (simp add: document_def frame_def)
  have sens: "\<forall>r. stype (heap w r) \<noteq> AzureBotService \<longrightarrow>
                heap w1 r = ((sensitive_encrypted E k) ^^ count_list (services w) r) (heap w r)"
    by (simp add: w1(3) encrypted_heap_at encrypted_service_sensitive_funpow)
  have tp1: "targetPath botpath w1 = targetPath botpath w"
    using w1(2) by (simp add: targetPath_cases frame_def)
  have accepted: "\<exists>w2. Save E botpath w = (Inr (), w2)
                   \<and> files w2 = (files w)(p \<mapsto> document w1)
                   \<and> heap w2 = heap w
                   \<and> w2 = w\<lparr>secretValidated := secretValidated w2, files := files w2\<rparr>
                   \<and> (secretValidated w \<longrightarrow> secretValidated w2)"
    if acc: "targetPath botpath w = Some p \<and> write_accepted E (Some p)"
  proof -
    let ?w1' = "w1\<lparr>files := (files w)(p \<mapsto> document w1)\<rparr>"
    have wr: "writeJson E (targetPath botpath w1) (document w1) w1 = (Inr (), ?w1')"
      using acc w1(2) by (simp add: tp1 writeJson_accepted frame_def)
    have v1: "valid_secret E k ?w1'"
      using frame_valid [OF w1(2) v] by (simp add: valid_secret_def)
    have h1: "heap ?w1' = encrypted_heap E k (services ?w1') (heap w)"
      using w1(2,3) by (simp add: frame_def)
    from decryptEach_frame [OF ok v1 h1] obtain w2 where
      w2: "decryptAll E ?w1' = (Inr (), w2)" "frame ?w1' w2" "heap w2 = heap w"
      by (auto simp add: decryptAll_def)
    have run: "Save E botpath w = (Inr (), w2)"
      using a w1(1) wr w2(1) by (simp add: Save_def)
    have fl: "files w2 = (files w)(p \<mapsto> document w1)"
      using w2(2) by (simp add: frame_def)
    have eq: "w2 = w\<lparr>secretValidated := secretValidated w2, files := files w2\<rparr>"
      using w1(2) w2(2,3) by (cases w, cases w2) (simp add: frame_def)
    have mono: "secretValidated w \<longrightarrow> secretValidated w2"
      using w1(2) w2(2) by (simp add: frame_def)
    from run fl w2(3) eq mono show ?thesis by blast
  qed
  have rejected: "\<exists>e. fst (Save E botpath w) = Inl e"
    if "\<not> write_accepted E (targetPath botpath w)"
    using Save_rejected_write [OF v that] by auto
  from w1(1) doc sens accepted rejected
  show "\<exists>w1. encryptAll E w = (Inr (), w1)
           \<and> document w1 =
                \<lparr> f_name = name w, f_description = description w, f_secretKey = secretKey w,
                  f_services = map (heap w1) (services w) \<rparr>
           \<and> (\<forall>r. stype (heap w r) \<noteq> AzureBotService \<longrightarrow>
                  heap w1 r = ((sensitive_encrypted E k) ^^ count_list (services w) r) (heap w r))
           \<and> (targetPath botpath w = Some p \<and> write_accepted E (Some p) \<longrightarrow>
                (\<exists>w2. Save E botpath w = (Inr (), w2)
                   \<and> files w2 = (files w)(p \<mapsto> document w1)
                   \<and> heap w2 = heap w
                   \<and> w2 = w\<lparr>secretValidated := secretValidated w2, files := files w2\<rparr>
                   \<and> (secretValidated w \<longrightarrow> secretValidated w2)))
           \<and> (\<not> write_accepted E (targetPath botpath w) \<longrightarrow>
                (\<exists>e. fst (Save E botpath w) = Inl e))"
    by blast
qed

theorem Save_behaviour_witness:
  "cipher_ok toy
   \<and> secretKey plainStore = []
   \<and> targetPath None plainStore = Some ''my.bot'' \<and> write_accepted toy (Some ''my.bot'')
   \<and> Save toy None plainStore
        = (Inr (), plainStore\<lparr>files := (files plainStore)(''my.bot'' \<mapsto> document plainStore)\<rparr>)
   \<and> \<not> write_accepted toy (targetPath (Some ''/no-such-dir/x.bot'') plainStore)
   \<and> Save toy (Some ''/no-such-dir/x.bot'') plainStore = (Inl FileError, plainStore)
   \<and> targetPath None keyedStore = Some ''my.bot''
   \<and> secretKey keyedStore \<noteq> [] \<and> secret keyedStore = Some ''abc'' \<and> ''abc'' \<noteq> []
   \<and> aes_decrypt toy ''abc'' (secretKey keyedStore) \<noteq> None
   \<and> stype (heap keyedStore 1) = Endpoint
   \<and> props (heap keyedStore 1) ''appPassword'' = Some ''pw''
   \<and> fst (Save toy None keyedStore) = Inr ()
   \<and> heap (snd (Save toy None keyedStore)) = heap keyedStore
   \<and> props (heap (snd (encryptAll toy keyedStore)) 1) ''appPassword'' = Some ''abc|pw''
   \<and> files (snd (Save toy None keyedStore)) ''my.bot''
        = Some (document (snd (encryptAll toy keyedStore)))
   \<and> \<not> write_accepted toy (targetPath (Some ''/no-such-dir/x.bot'') keyedStore)
   \<and> fst (Save toy (Some ''/no-such-dir/x.bot'') keyedStore) = Inl FileError"
proof -
  have p: "secretKey plainStore = []"
    "targetPath None plainStore = Some ''my.bot'' \<and> write_accepted toy (Some ''my.bot'')"
    "\<not> write_accepted toy (targetPath (Some ''/no-such-dir/x.bot'') plainStore)"
    by (simp_all add: targetPath_def write_accepted_def plainStore_def store0_def toy_def)
  have k: "targetPath None keyedStore = Some ''my.bot'' \<and> write_accepted toy (Some ''my.bot'')"
    "cipher_ok toy \<and> secretKey keyedStore \<noteq> [] \<and> secret keyedStore = Some ''abc'' \<and> ''abc'' \<noteq> []
       \<and> (secretValidated keyedStore \<or> aes_decrypt toy ''abc'' (secretKey keyedStore) \<noteq> None)"
    "aes_decrypt toy ''abc'' (secretKey keyedStore) \<noteq> None"
    "stype (heap keyedStore 1) = Endpoint"
    "props (heap keyedStore 1) ''appPassword'' = Some ''pw''"
    "\<not> write_accepted toy (targetPath (Some ''/no-such-dir/x.bot'') keyedStore)"
    "count_list (services keyedStore) 1 = 1"
    "stype (heap keyedStore 1) \<noteq> AzureBotService"
    using cipher_ok_toy
    by (simp_all add: targetPath_def write_accepted_def keyedStore_def store0_def toy_def
        pwHeap_def svc_def)
  have c: "props (sensitive_encrypted toy ''abc'' (heap keyedStore 1)) ''appPassword''
             = Some ''abc|pw''"
    by (simp add: sensitive_encrypted_def encrypted_value_def keyedStore_def pwHeap_def svc_def
        toy_def)
  have f: "fst (Save toy (Some ''/no-such-dir/x.bot'') plainStore) = Inl FileError"
    "fst (Save toy (Some ''/no-such-dir/x.bot'') keyedStore) = Inl FileError"
    by (simp_all add: Save_def writeJson_def targetPath_def encryptAll_def encryptService_def
        getEncryptedProperties_def encryptValue_def validateSecretKey_def internalEncrypt_def
        setProp_def plainStore_def keyedStore_def store0_def pwHeap_def svc_def toy_def)
  from Save_behaviour [of None plainStore "''my.bot''" toy "''abc''"] p(1,2)
  have a: "Save toy None plainStore
        = (Inr (), plainStore\<lparr>files := (files plainStore)(''my.bot'' \<mapsto> document plainStore)\<rparr>)"
    by blast
  from Save_behaviour [of "Some ''/no-such-dir/x.bot''" plainStore "''my.bot''" toy "''abc''"] p(1,3)
  obtain e where "Save toy (Some ''/no-such-dir/x.bot'') plainStore = (Inl e, plainStore)"
    by blast
  with f(1) have a': "Save toy (Some ''/no-such-dir/x.bot'') plainStore = (Inl FileError, plainStore)"
    by simp
  from Save_behaviour [of None keyedStore "''my.bot''" toy "''abc''"] k(1,2,8)
  obtain w1 w2 where b: "encryptAll toy keyedStore = (Inr (), w1)"
    "Save toy None keyedStore = (Inr (), w2)" "heap w2 = heap keyedStore"
    "files w2 = (files keyedStore)(''my.bot'' \<mapsto> document w1)"
    "heap w1 1 = ((sensitive_encrypted toy ''abc'') ^^ count_list (services keyedStore) 1)
                   (heap keyedStore 1)"
    by blast
  from b c k(7) have d: "fst (Save toy None keyedStore) = Inr ()"
    "heap (snd (Save toy None keyedStore)) = heap keyedStore"
    "props (heap (snd (encryptAll toy keyedStore)) 1) ''appPassword'' = Some ''abc|pw''"
    "files (snd (Save toy None keyedStore)) ''my.bot''
        = Some (document (snd (encryptAll toy keyedStore)))"
    by simp_all
  from cipher_ok_toy p(1,2,3) a a' k(1,2,3,4,5,6) d f(2) show ?thesis by blast
qed

text \<open>
  C3, as the claim states it, fails: \<open>plainStore\<close> has the non-empty secret \<^verbatim>\<open>abc\<close> and
  no verifier, and \<^verbatim>\<open>Save\<close> writes the password \<^verbatim>\<open>pw\<close> of both its services in
  plaintext; \<open>noSecretStore\<close> has no secret and a verifier, and \<^verbatim>\<open>Save\<close> raises the
  secret-required error instead of writing the services as they are.
\<close>

theorem Save_counterexample:
  "secret plainStore = Some ''abc''
   \<and> stype (heap plainStore 1) = Endpoint
   \<and> fst (Save toy None plainStore) = Inr ()
   \<and> files (snd (Save toy None plainStore)) ''my.bot'' = Some (document plainStore)
   \<and> props (f_services (document plainStore) ! 1) ''appPassword'' = Some ''pw''
   \<and> secret noSecretStore = None
   \<and> fst (Save toy None noSecretStore) = Inl SecretMissing"
  by (simp add: Save_def writeJson_def targetPath_def document_def encryptAll_def
      encryptService_def getEncryptedProperties_def encryptValue_def validateSecretKey_def
      setProp_def plainStore_def noSecretStore_def keyedStore_def store0_def pwHeap_def svc_def
      toy_def)

section \<open>Connecting a service\<close>

lemma uniqueName_least:
  "\<exists>n\<ge>s. uniqueName names base s = candidate base n \<and> candidate base n \<notin> set names
        \<and> (\<forall>m. s \<le> m \<and> m < n \<longrightarrow> candidate base m \<in> set names)"
proof (induction names base s rule: uniqueName.induct)
  case (1 names base s)
  show ?case
  proof (cases "candidate base s \<in> set names")
    case False
    then have "uniqueName names base s = candidate base s"
      by (simp add: uniqueName.simps [of names base s] Let_def filter_empty_conv)
    with False show ?thesis by auto
  next
    case True
    then have ne: "filter (\<lambda>x. x = candidate base s) names \<noteq> []"
      by (simp add: filter_empty_conv)
    then have eq: "uniqueName names base s = uniqueName names base (s + 1)"
      by (simp add: uniqueName.simps [of names base s] Let_def)
    from 1 [OF refl ne] obtain n where n: "n \<ge> s + 1"
      "uniqueName names base (s + 1) = candidate base n" "candidate base n \<notin> set names"
      "\<forall>m. s + 1 \<le> m \<and> m < n \<longrightarrow> candidate base m \<in> set names"
      by blast
    have "\<forall>m. s \<le> m \<and> m < n \<longrightarrow> candidate base m \<in> set names"
    proof (intro allI impI)
      fix m assume "s \<le> m \<and> m < n"
      then show "candidate base m \<in> set names"
        using True n(4) by (cases "m = s") auto
    qed
    with n eq show ?thesis
      by (metis Suc_eq_plus1 Suc_leD)
  qed
qed

lemma connectService_fresh:
  assumes "fst (connectService w r) = Inr ()"
  shows "r \<notin> set (services w)"
    and "connectService w r =
      (Inr (), w\<lparr>heap := (heap w)(r := (heap w r)\<lparr>sname :=
                   uniqueName (map (\<lambda>s. sname (heap w s)) (services w)) (sname (heap w r)) 1\<rparr>),
                 services := services w @ [r]\<rparr>)"
proof -
  from assms have emp: "filter (\<lambda>s. sid (heap w s) = sid (heap w r))
           (filter (\<lambda>s. stype (heap w s) = stype (heap w r)) (services w)) = []"
    by (simp add: connectService_def split: if_splits)
  then show "r \<notin> set (services w)"
    by (auto simp add: filter_empty_conv)
  from emp show "connectService w r =
      (Inr (), w\<lparr>heap := (heap w)(r := (heap w r)\<lparr>sname :=
                   uniqueName (map (\<lambda>s. sname (heap w s)) (services w)) (sname (heap w r)) 1\<rparr>),
                 services := services w @ [r]\<rparr>)"
    by (simp add: connectService_def)
qed

text \<open>
  C5. When a service is connected and a descriptor has its type and its id, whatever the
  two names are, \<^verbatim>\<open>connectService\<close> on that descriptor fails with the "already connected"
  error carrying the id, and the store, its list of services included, is as it was.
\<close>

theorem connectService_duplicate:
  assumes "r1 \<in> set (services w)"
    and "stype (heap w r2) = stype (heap w r1)" and "sid (heap w r2) = sid (heap w r1)"
  shows "connectService w r2 = (Inl (AlreadyConnected (sid (heap w r2))), w)"
proof -
  from assms have "r1 \<in> set (filter (\<lambda>s. sid (heap w s) = sid (heap w r2))
           (filter (\<lambda>s. stype (heap w s) = stype (heap w r2)) (services w)))"
    by simp
  then have "filter (\<lambda>s. sid (heap w s) = sid (heap w r2))
           (filter (\<lambda>s. stype (heap w s) = stype (heap w r2)) (services w)) \<noteq> []"
    by (metis empty_iff list.set(1))
  then show ?thesis
    by (simp add: connectService_def)
qed

theorem connectService_duplicate_witness:
  "0 \<in> set (services fooStore)
   \<and> stype (heap fooStore 3) = stype (heap fooStore 0)
   \<and> sid (heap fooStore 3) = sid (heap fooStore 0)
   \<and> sname (heap fooStore 3) \<noteq> sname (heap fooStore 0)
   \<and> connectService fooStore 3 = (Inl (AlreadyConnected ''a''), fooStore)"
proof -
  have h: "0 \<in> set (services fooStore)" "stype (heap fooStore 3) = stype (heap fooStore 0)"
    "sid (heap fooStore 3) = sid (heap fooStore 0)"
    "sname (heap fooStore 3) \<noteq> sname (heap fooStore 0)" "sid (heap fooStore 3) = ''a''"
    by (simp_all add: fooStore_def svc_def)
  from connectService_duplicate [OF h(1-3)] h show ?thesis by simp
qed

text \<open>
  What \<open>show_nat\<close> prints is the decimal numeral of the count: digits only, no leading
  zero, and the number they denote is the count.
\<close>

lemma digits_table:
  "\<forall>d<10. digit_value (''0123456789'' ! d) = d \<and> (d \<noteq> 0 \<longrightarrow> ''0123456789'' ! d \<noteq> CHR ''0'')"
  by (simp add: eval_nat_numeral All_less_Suc digit_value_def)

lemma digit_value_digit: "d < 10 \<Longrightarrow> digit_value (''0123456789'' ! d) = d"
  using digits_table by blast

lemma digit_is_digit: "d < 10 \<Longrightarrow> ''0123456789'' ! d \<in> set ''0123456789''"
  by (rule nth_mem) simp

lemma decimal_value_snoc: "decimal_value (s @ [c]) = 10 * decimal_value s + digit_value c"
  by (simp add: decimal_value_def)

lemma decimal_value_show_nat: "decimal_value (show_nat n) = n"
proof (induction n rule: show_nat.induct)
  case (1 n)
  show ?case
  proof (cases "n < 10")
    case True
    then show ?thesis
      by (simp add: show_nat.simps [of n] decimal_value_def digit_value_digit)
  next
    case False
    with 1 have "decimal_value (show_nat (n div 10)) = n div 10" by simp
    with False show ?thesis
      by (simp add: show_nat.simps [of n] decimal_value_snoc digit_value_digit)
  qed
qed

lemma show_nat_digits: "set (show_nat n) \<subseteq> set ''0123456789''"
proof (induction n rule: show_nat.induct)
  case (1 n)
  show ?case
  proof (cases "n < 10")
    case True
    with digit_is_digit [of n] show ?thesis
      by (simp add: show_nat.simps [of n])
  next
    case False
    with 1 have "set (show_nat (n div 10)) \<subseteq> set ''0123456789''" by simp
    with False digit_is_digit [of "n mod 10"] show ?thesis
      by (simp add: show_nat.simps [of n])
  qed
qed

lemma show_nat_not_Nil: "show_nat n \<noteq> []"
  by (simp add: show_nat.simps [of n])

lemma show_nat_leading: "n \<noteq> 0 \<Longrightarrow> hd (show_nat n) \<noteq> CHR ''0''"
proof (induction n rule: show_nat.induct)
  case (1 n)
  show ?case
  proof (cases "n < 10")
    case True
    with 1(2) digits_table have "''0123456789'' ! n \<noteq> CHR ''0''" by blast
    with True show ?thesis
      by (simp add: show_nat.simps [of n])
  next
    case False
    then have "n div 10 \<noteq> 0" by simp
    with 1(1) False have "hd (show_nat (n div 10)) \<noteq> CHR ''0''" by simp
    with False show ?thesis
      by (simp add: show_nat.simps [of n] show_nat_not_Nil)
  qed
qed

text \<open>
  C6. When \<^verbatim>\<open>connectService\<close> succeeds, the descriptor is the last of the services, the
  descriptors connected before are untouched, and its stored name is: the name it came with
  when no connected service bears that name; otherwise the name followed by a space and the
  count \<open>n\<close> in parentheses, for the least \<open>n\<close> from 2 on such that no connected service bears
  that suffixed name. The count is printed as its decimal numeral: digits only, no leading
  zero, denoting the count. So a second \<^verbatim>\<open>Foo\<close> is stored as \<^verbatim>\<open>Foo (2)\<close>, a third as
  \<^verbatim>\<open>Foo (3)\<close> and an eleventh as \<^verbatim>\<open>Foo (11)\<close>.
\<close>

theorem connectService_name:
  assumes ok: "fst (connectService w r) = Inr ()"
  shows "(sname (heap w r) \<notin> (\<lambda>s. sname (heap w s)) ` set (services w) \<longrightarrow>
            sname (heap (snd (connectService w r)) r) = sname (heap w r))
       \<and> (sname (heap w r) \<in> (\<lambda>s. sname (heap w s)) ` set (services w) \<longrightarrow>
            (\<exists>n\<ge>2. sname (heap (snd (connectService w r)) r) = candidate (sname (heap w r)) n
                  \<and> candidate (sname (heap w r)) n \<notin> (\<lambda>s. sname (heap w s)) ` set (services w)
                  \<and> (\<forall>m. 2 \<le> m \<and> m < n \<longrightarrow>
                        candidate (sname (heap w r)) m
                          \<in> (\<lambda>s. sname (heap w s)) ` set (services w))))
       \<and> (\<forall>n\<ge>2. candidate (sname (heap w r)) n = sname (heap w r) @ '' ('' @ show_nat n @ '')'')
       \<and> (\<forall>n. decimal_value (show_nat n) = n \<and> show_nat n \<noteq> []
               \<and> set (show_nat n) \<subseteq> set ''0123456789''
               \<and> (n \<noteq> 0 \<longrightarrow> hd (show_nat n) \<noteq> CHR ''0''))
       \<and> last (services (snd (connectService w r))) = r
       \<and> (\<forall>s \<in> set (services w). heap (snd (connectService w r)) s = heap w s)"
proof -
  define names where "names = map (\<lambda>s. sname (heap w s)) (services w)"
  define base where "base = sname (heap w r)"
  define stored where "stored = sname (heap (snd (connectService w r)) r)"
  have st: "stored = uniqueName names base 1"
    by (simp add: stored_def names_def base_def connectService_fresh(2) [OF ok])
  obtain n where n: "n \<ge> 1" "stored = candidate base n"
    "candidate base n \<notin> set names"
    "\<forall>m. 1 \<le> m \<and> m < n \<longrightarrow> candidate base m \<in> set names"
    using uniqueName_least [of 1 names base] st by auto
  have c1: "candidate base 1 = base" by (simp add: candidate_def)
  have A: "base \<notin> set names \<longrightarrow> stored = base"
  proof
    assume "base \<notin> set names"
    with n(4) c1 have "\<not> 1 < n" by (metis le_refl)
    with n(1) have "n = 1" by simp
    with n(2) c1 show "stored = base" by simp
  qed
  have D: "base \<in> set names \<longrightarrow> (\<exists>n\<ge>2. stored = candidate base n
                  \<and> candidate base n \<notin> set names
                  \<and> (\<forall>m. 2 \<le> m \<and> m < n \<longrightarrow> candidate base m \<in> set names))"
  proof
    assume mem: "base \<in> set names"
    with n(3) c1 have "n \<noteq> 1" by metis
    with n(1) have n2: "n \<ge> 2" by simp
    have "\<forall>m. 2 \<le> m \<and> m < n \<longrightarrow> candidate base m \<in> set names"
      using n(4) by simp
    with n2 n(2,3) show "\<exists>n\<ge>2. stored = candidate base n
                  \<and> candidate base n \<notin> set names
                  \<and> (\<forall>m. 2 \<le> m \<and> m < n \<longrightarrow> candidate base m \<in> set names)"
      by (intro exI [of _ n]) simp
  qed
  have C: "\<forall>n\<ge>2. candidate base n = base @ '' ('' @ show_nat n @ '')''"
    by (simp add: candidate_def)
  have N: "\<forall>n. decimal_value (show_nat n) = n \<and> show_nat n \<noteq> []
               \<and> set (show_nat n) \<subseteq> set ''0123456789''
               \<and> (n \<noteq> 0 \<longrightarrow> hd (show_nat n) \<noteq> CHR ''0'')"
    using decimal_value_show_nat show_nat_not_Nil show_nat_digits show_nat_leading by blast
  have E: "last (services (snd (connectService w r))) = r"
    by (simp add: connectService_fresh(2) [OF ok])
  have F: "\<forall>s \<in> set (services w). heap (snd (connectService w r)) s = heap w s"
    using connectService_fresh(1) [OF ok]
    by (auto simp add: connectService_fresh(2) [OF ok])
  have S: "set names = (\<lambda>s. sname (heap w s)) ` set (services w)"
    by (simp add: names_def)
  show ?thesis
    using A D C N E F unfolding S stored_def base_def
    by (intro conjI) assumption+
qed

theorem connectService_name_witness:
  "fst (connectService fooStore 1) = Inr ()
   \<and> sname (heap fooStore 1) = ''Foo''
   \<and> sname (heap fooStore 0) = ''Foo''
   \<and> sname (heap (snd (connectService fooStore 1)) 1) = ''Foo (2)''
   \<and> fst (connectService (snd (connectService fooStore 1)) 2) = Inr ()
   \<and> sname (heap (snd (connectService (snd (connectService fooStore 1)) 2)) 2) = ''Foo (3)''
   \<and> fst (connectService tenStore 10) = Inr ()
   \<and> sname (heap tenStore 10) = ''Foo''
   \<and> sname (heap (snd (connectService tenStore 10)) 10) = ''Foo (11)''
   \<and> show_nat 0 = ''0'' \<and> show_nat 9 = ''9'' \<and> show_nat 10 = ''10'' \<and> show_nat 11 = ''11''
   \<and> show_nat 20 = ''20'' \<and> show_nat 2026 = ''2026''
   \<and> decimal_value ''2026'' = 2026"
proof -
  have u2: "uniqueName [''Foo''] ''Foo'' (Suc 0) = ''Foo (2)''"
    by (simp add: uniqueName.simps candidate_def show_nat.simps)
  have u3: "uniqueName [''Foo'', ''Foo (2)''] ''Foo'' (Suc 0) = ''Foo (3)''"
    by (simp add: uniqueName.simps candidate_def show_nat.simps)
  have u11: "uniqueName tenNames ''Foo'' (Suc 0) = ''Foo (11)''"
    by (simp add: uniqueName.simps candidate_def show_nat.simps tenNames_def)
  have a: "fst (connectService fooStore 1) = Inr ()"
    "sname (heap fooStore 1) = ''Foo''" "sname (heap fooStore 0) = ''Foo''"
    by (simp_all add: connectService_def fooStore_def svc_def)
  have b: "sname (heap (snd (connectService fooStore 1)) 1) = ''Foo (2)''"
    by (simp add: connectService_def fooStore_def svc_def u2)
  have c: "fst (connectService (snd (connectService fooStore 1)) 2) = Inr ()"
    by (simp add: connectService_def fooStore_def svc_def)
  have d: "sname (heap (snd (connectService (snd (connectService fooStore 1)) 2)) 2) = ''Foo (3)''"
    by (simp add: connectService_def fooStore_def svc_def u2 u3)
  have names: "map (\<lambda>s. sname (heap tenStore s)) (services tenStore) = tenNames"
    by (simp add: tenStore_def store0_def svc_def tenNames_def)
  have e: "fst (connectService tenStore 10) = Inr ()" "sname (heap tenStore 10) = ''Foo''"
    by (simp_all add: connectService_def tenStore_def store0_def svc_def tenIds_def)
  from e(1) have "sname (heap (snd (connectService tenStore 10)) 10)
      = uniqueName (map (\<lambda>s. sname (heap tenStore s)) (services tenStore))
          (sname (heap tenStore 10)) 1"
    by (simp add: connectService_def split: if_splits)
  then have f: "sname (heap (snd (connectService tenStore 10)) 10) = ''Foo (11)''"
    by (simp add: names e(2) u11)
  have g: "show_nat 0 = ''0''" "show_nat 9 = ''9''" "show_nat 10 = ''10''" "show_nat 11 = ''11''"
    "show_nat 20 = ''20''" "show_nat 2026 = ''2026''"
    by (simp_all add: show_nat.simps)
  from connectService_name [OF a(1)] have h: "decimal_value (show_nat 2026) = 2026"
    by blast
  then have h': "decimal_value ''2026'' = 2026"
    by (simp only: g)
  from a b c d e f g h' show ?thesis by blast
qed

text \<open>
  C10. \<^verbatim>\<open>connectService\<close> writes into the descriptor object it is handed: when it
  succeeds, the object at the caller's reference is the one it was with the name replaced
  by the name the store assigned, that same reference is appended to the services, no other
  object changes, and when a connected service already bore the descriptor's name the
  object no longer carries the name it was created with.
\<close>

theorem connectService_mutates_descriptor:
  assumes ok: "fst (connectService w r) = Inr ()"
  shows "heap (snd (connectService w r)) r
           = (heap w r)\<lparr>sname := uniqueName (map (\<lambda>s. sname (heap w s)) (services w))
                                    (sname (heap w r)) 1\<rparr>
       \<and> services (snd (connectService w r)) = services w @ [r]
       \<and> (sname (heap w r) \<in> (\<lambda>s. sname (heap w s)) ` set (services w) \<longrightarrow>
            sname (heap (snd (connectService w r)) r) \<noteq> sname (heap w r))
       \<and> (\<forall>q. q \<noteq> r \<longrightarrow> heap (snd (connectService w r)) q = heap w q)"
proof -
  define names where "names = map (\<lambda>s. sname (heap w s)) (services w)"
  have eq: "snd (connectService w r) =
      w\<lparr>heap := (heap w)(r := (heap w r)\<lparr>sname := uniqueName names (sname (heap w r)) 1\<rparr>),
        services := services w @ [r]\<rparr>"
    by (simp add: names_def connectService_fresh(2) [OF ok])
  obtain n where n: "uniqueName names (sname (heap w r)) 1 = candidate (sname (heap w r)) n"
    "candidate (sname (heap w r)) n \<notin> set names"
    using uniqueName_least [of 1 names "sname (heap w r)"] by blast
  have "sname (heap w r) \<in> set names \<longrightarrow> uniqueName names (sname (heap w r)) 1 \<noteq> sname (heap w r)"
    using n by auto
  then show ?thesis
    unfolding eq by (simp add: names_def)
qed

theorem connectService_mutates_descriptor_witness:
  "fst (connectService fooStore 1) = Inr ()
   \<and> sname (heap fooStore 1) = ''Foo''
   \<and> sname (heap fooStore 1) \<in> (\<lambda>s. sname (heap fooStore s)) ` set (services fooStore)
   \<and> sname (heap (snd (connectService fooStore 1)) 1) = ''Foo (2)''
   \<and> sname (heap (snd (connectService fooStore 1)) 1) \<noteq> sname (heap fooStore 1)
   \<and> services (snd (connectService fooStore 1)) = [0, 1]"
proof -
  have u2: "uniqueName [''Foo''] ''Foo'' 1 = ''Foo (2)''"
    by (simp add: uniqueName.simps candidate_def show_nat.simps)
  have a: "fst (connectService fooStore 1) = Inr ()"
    "sname (heap fooStore 1) = ''Foo''"
    "sname (heap fooStore 1) \<in> (\<lambda>s. sname (heap fooStore s)) ` set (services fooStore)"
    by (simp_all add: connectService_def fooStore_def svc_def)
  have names: "map (\<lambda>s. sname (heap fooStore s)) (services fooStore) = [''Foo'']"
    and svs: "services fooStore @ [1] = [0, 1]"
    by (simp_all add: fooStore_def svc_def)
  note m = connectService_mutates_descriptor [OF a(1)]
  from m have "sname (heap (snd (connectService fooStore 1)) 1)
      = uniqueName (map (\<lambda>s. sname (heap fooStore s)) (services fooStore))
          (sname (heap fooStore 1)) 1"
    by simp
  then have nm: "sname (heap (snd (connectService fooStore 1)) 1) = ''Foo (2)''"
    by (simp only: names a(2) u2)
  from m a(3) have ne: "sname (heap (snd (connectService fooStore 1)) 1) \<noteq> sname (heap fooStore 1)"
    by blast
  from m have "services (snd (connectService fooStore 1)) = services fooStore @ [1]"
    by blast
  then have sv: "services (snd (connectService fooStore 1)) = [0, 1]"
    by (simp only: svs)
  from a nm ne sv show ?thesis by blast
qed

section \<open>Disconnecting a service\<close>

lemma removeFirst_None:
  "removeFirst test h svs i = None \<longleftrightarrow> (\<forall>j. i \<le> j \<and> j < length svs \<longrightarrow> \<not> test (h (svs ! j)))"
proof (induction test h svs i rule: removeFirst.induct)
  case (1 test h svs i)
  show ?case
  proof (cases "i < length svs")
    case False
    then show ?thesis by (auto simp add: removeFirst.simps [of test h svs i])
  next
    case lt: True
    show ?thesis
    proof (cases "test (h (svs ! i))")
      case True
      with lt show ?thesis by (auto simp add: removeFirst.simps [of test h svs i])
    next
      case False
      have "(\<forall>j. i \<le> j \<and> j < length svs \<longrightarrow> \<not> test (h (svs ! j)))
            \<longleftrightarrow> (\<forall>j. i + 1 \<le> j \<and> j < length svs \<longrightarrow> \<not> test (h (svs ! j)))"
        using False by (metis Suc_eq_plus1 Suc_leI le_neq_implies_less Suc_leD)
      with 1 [OF lt False] lt False show ?thesis
        by (simp add: removeFirst.simps [of test h svs i])
    qed
  qed
qed

lemma removeFirst_Some:
  "removeFirst test h svs i = Some svs' \<Longrightarrow>
     \<exists>j. i \<le> j \<and> j < length svs \<and> test (h (svs ! j))
        \<and> (\<forall>k. i \<le> k \<and> k < j \<longrightarrow> \<not> test (h (svs ! k)))
        \<and> svs' = take j svs @ drop (Suc j) svs"
proof (induction test h svs i rule: removeFirst.induct)
  case (1 test h svs i)
  show ?case
  proof (cases "i < length svs")
    case False
    with 1(2) show ?thesis by (simp add: removeFirst.simps [of test h svs i])
  next
    case lt: True
    show ?thesis
    proof (cases "test (h (svs ! i))")
      case True
      with lt 1(2) have "svs' = take i svs @ drop (Suc i) svs"
        by (simp add: removeFirst.simps [of test h svs i])
      with lt True show ?thesis by (intro exI [of _ i]) auto
    next
      case False
      with lt 1(2) have "removeFirst test h svs (i + 1) = Some svs'"
        by (simp add: removeFirst.simps [of test h svs i])
      from 1(1) [OF lt False this] obtain j where j: "i + 1 \<le> j" "j < length svs"
        "test (h (svs ! j))" "\<forall>k. i + 1 \<le> k \<and> k < j \<longrightarrow> \<not> test (h (svs ! k))"
        "svs' = take j svs @ drop (Suc j) svs"
        by blast
      have "\<forall>k. i \<le> k \<and> k < j \<longrightarrow> \<not> test (h (svs ! k))"
      proof (intro allI impI)
        fix k assume "i \<le> k \<and> k < j"
        then show "\<not> test (h (svs ! k))"
          using False j(4) by (cases "k = i") auto
      qed
      with j show ?thesis by (intro exI [of _ j]) simp
    qed
  qed
qed

text \<open>The first match splits the list: nothing before it matches.\<close>

lemma removeFirst_split:
  assumes "removeFirst test h svs 0 = Some svs'"
  shows "\<exists>pre r post. svs = pre @ r # post \<and> test (h r) \<and> (\<forall>q \<in> set pre. \<not> test (h q))
            \<and> svs' = pre @ post"
proof -
  from removeFirst_Some [OF assms] obtain j where j: "j < length svs" "test (h (svs ! j))"
    "\<forall>k. k < j \<longrightarrow> \<not> test (h (svs ! k))" "svs' = take j svs @ drop (Suc j) svs"
    by auto
  have 1: "svs = take j svs @ svs ! j # drop (Suc j) svs"
    using j(1) by (simp add: id_take_nth_drop)
  have 2: "\<forall>q \<in> set (take j svs). \<not> test (h q)"
  proof
    fix q assume "q \<in> set (take j svs)"
    then obtain k where "k < length (take j svs)" "take j svs ! k = q"
      by (auto simp add: in_set_conv_nth)
    with j(1,3) show "\<not> test (h q)" by auto
  qed
  from 1 2 j(2,4) show ?thesis by blast
qed

lemma removeFirst_None_set:
  "removeFirst test h svs 0 = None \<longleftrightarrow> (\<forall>r \<in> set svs. \<not> test (h r))"
  by (simp add: removeFirst_None all_set_conv_all_nth)

text \<open>
  C7. \<^verbatim>\<open>disconnectService\<close> never raises. When no service has the type and the id, the
  store is as it was. When one has, the first such service in the list is removed, the
  services before and after it keep their order, and nothing else changes.
\<close>

theorem disconnectService_first_match:
  "fst (disconnectService w t i) = Inr ()
   \<and> ((\<forall>r \<in> set (services w). \<not> (stype (heap w r) = t \<and> sid (heap w r) = i)) \<longrightarrow>
        disconnectService w t i = (Inr (), w))
   \<and> ((\<exists>r \<in> set (services w). stype (heap w r) = t \<and> sid (heap w r) = i) \<longrightarrow>
        (\<exists>pre r post. services w = pre @ r # post
           \<and> (stype (heap w r) = t \<and> sid (heap w r) = i)
           \<and> (\<forall>q \<in> set pre. \<not> (stype (heap w q) = t \<and> sid (heap w q) = i))
           \<and> disconnectService w t i = (Inr (), w\<lparr>services := pre @ post\<rparr>)))"
proof -
  define test :: "service \<Rightarrow> bool" where "test = (\<lambda>service. stype service = t \<and> sid service = i)"
  have def: "disconnectService w t i =
     (case removeFirst test (heap w) (services w) 0 of
        Some svs \<Rightarrow> (Inr (), w\<lparr>services := svs\<rparr>)
      | None \<Rightarrow> (Inr (), w))"
    by (simp add: disconnectService_def test_def)
  have A: "fst (disconnectService w t i) = Inr ()"
    by (simp add: def split: option.splits)
  have B: "(\<forall>r \<in> set (services w). \<not> test (heap w r)) \<longrightarrow> disconnectService w t i = (Inr (), w)"
    by (simp add: def removeFirst_None_set [symmetric])
  have C: "(\<exists>r \<in> set (services w). test (heap w r)) \<longrightarrow>
        (\<exists>pre r post. services w = pre @ r # post \<and> test (heap w r)
           \<and> (\<forall>q \<in> set pre. \<not> test (heap w q))
           \<and> disconnectService w t i = (Inr (), w\<lparr>services := pre @ post\<rparr>))"
  proof
    assume "\<exists>r \<in> set (services w). test (heap w r)"
    then have "removeFirst test (heap w) (services w) 0 \<noteq> None"
      by (simp add: removeFirst_None_set)
    then obtain svs' where s: "removeFirst test (heap w) (services w) 0 = Some svs'"
      by auto
    from removeFirst_split [OF s] obtain pre r post where
      "services w = pre @ r # post" "test (heap w r)" "\<forall>q \<in> set pre. \<not> test (heap w q)"
      "svs' = pre @ post"
      by blast
    with s show "\<exists>pre r post. services w = pre @ r # post \<and> test (heap w r)
           \<and> (\<forall>q \<in> set pre. \<not> test (heap w q))
           \<and> disconnectService w t i = (Inr (), w\<lparr>services := pre @ post\<rparr>)"
      by (intro exI [of _ pre] exI [of _ r] exI [of _ post]) (simp add: def)
  qed
  from A B C show ?thesis
    unfolding test_def by (intro conjI) assumption+
qed

theorem disconnectService_first_match_witness:
  "\<not> (\<exists>r \<in> set (services listStore). stype (heap listStore r) = QnA \<and> sid (heap listStore r) = ''a'')
   \<and> disconnectService listStore QnA ''a'' = (Inr (), listStore)
   \<and> (\<exists>r \<in> set (services listStore). stype (heap listStore r) = Luis \<and> sid (heap listStore r) = ''b'')
   \<and> fst (disconnectService listStore Luis ''b'') = Inr ()
   \<and> services (snd (disconnectService listStore Luis ''b'')) = [0, 2]"
proof -
  have miss: "\<forall>r \<in> set (services listStore).
                \<not> (stype (heap listStore r) = QnA \<and> sid (heap listStore r) = ''a'')"
    by (simp add: listStore_def fooStore_def svc_def)
  have hit: "\<exists>r \<in> set (services listStore).
                stype (heap listStore r) = Luis \<and> sid (heap listStore r) = ''b''"
    by (simp add: listStore_def fooStore_def svc_def)
  have run: "services (snd (disconnectService listStore Luis ''b'')) = [0, 2]"
    by (simp add: disconnectService_def removeFirst.simps listStore_def fooStore_def svc_def)
  from disconnectService_first_match [of listStore QnA "''a''"] miss
  have a: "disconnectService listStore QnA ''a'' = (Inr (), listStore)" by blast
  from disconnectService_first_match [of listStore Luis "''b''"]
  have b: "fst (disconnectService listStore Luis ''b'') = Inr ()" by blast
  from miss hit run a b show ?thesis by simp
qed

text \<open>
  C8. When no service has the token for id or for name, \<^verbatim>\<open>disconnectServiceByNameOrId\<close>
  fails with the "not found" error carrying the token and the store is as it was. When one
  has, the first such service in the list is removed and nothing else changes.
\<close>

theorem disconnectServiceByNameOrId_first_match:
  "((\<forall>r \<in> set (services w). \<not> (sid (heap w r) = tok \<or> sname (heap w r) = tok)) \<longrightarrow>
        disconnectServiceByNameOrId w tok = (Inl (NotFound tok), w))
   \<and> ((\<exists>r \<in> set (services w). sid (heap w r) = tok \<or> sname (heap w r) = tok) \<longrightarrow>
        (\<exists>pre r post. services w = pre @ r # post
           \<and> (sid (heap w r) = tok \<or> sname (heap w r) = tok)
           \<and> (\<forall>q \<in> set pre. \<not> (sid (heap w q) = tok \<or> sname (heap w q) = tok))
           \<and> disconnectServiceByNameOrId w tok = (Inr (), w\<lparr>services := pre @ post\<rparr>)))"
proof -
  define test :: "service \<Rightarrow> bool" where "test = (\<lambda>service. sid service = tok \<or> sname service = tok)"
  have def: "disconnectServiceByNameOrId w tok =
     (case removeFirst test (heap w) (services w) 0 of
        Some svs \<Rightarrow> (Inr (), w\<lparr>services := svs\<rparr>)
      | None \<Rightarrow> (Inl (NotFound tok), w))"
    by (simp add: disconnectServiceByNameOrId_def test_def)
  have B: "(\<forall>r \<in> set (services w). \<not> test (heap w r)) \<longrightarrow>
             disconnectServiceByNameOrId w tok = (Inl (NotFound tok), w)"
    by (simp add: def removeFirst_None_set [symmetric])
  have C: "(\<exists>r \<in> set (services w). test (heap w r)) \<longrightarrow>
        (\<exists>pre r post. services w = pre @ r # post \<and> test (heap w r)
           \<and> (\<forall>q \<in> set pre. \<not> test (heap w q))
           \<and> disconnectServiceByNameOrId w tok = (Inr (), w\<lparr>services := pre @ post\<rparr>))"
  proof
    assume "\<exists>r \<in> set (services w). test (heap w r)"
    then have "removeFirst test (heap w) (services w) 0 \<noteq> None"
      by (simp add: removeFirst_None_set)
    then obtain svs' where s: "removeFirst test (heap w) (services w) 0 = Some svs'"
      by auto
    from removeFirst_split [OF s] obtain pre r post where
      "services w = pre @ r # post" "test (heap w r)" "\<forall>q \<in> set pre. \<not> test (heap w q)"
      "svs' = pre @ post"
      by blast
    with s show "\<exists>pre r post. services w = pre @ r # post \<and> test (heap w r)
           \<and> (\<forall>q \<in> set pre. \<not> test (heap w q))
           \<and> disconnectServiceByNameOrId w tok = (Inr (), w\<lparr>services := pre @ post\<rparr>)"
      by (intro exI [of _ pre] exI [of _ r] exI [of _ post]) (simp add: def)
  qed
  from B C show ?thesis
    unfolding test_def by (intro conjI) assumption+
qed

theorem disconnectServiceByNameOrId_first_match_witness:
  "\<not> (\<exists>r \<in> set (services listStore).
         sid (heap listStore r) = ''nope'' \<or> sname (heap listStore r) = ''nope'')
   \<and> disconnectServiceByNameOrId listStore ''nope'' = (Inl (NotFound ''nope''), listStore)
   \<and> (\<exists>r \<in> set (services listStore).
         sid (heap listStore r) = ''Foo'' \<or> sname (heap listStore r) = ''Foo'')
   \<and> fst (disconnectServiceByNameOrId listStore ''Foo'') = Inr ()
   \<and> services (snd (disconnectServiceByNameOrId listStore ''Foo'')) = [1, 2]
   \<and> services (snd (disconnectServiceByNameOrId listStore ''b'')) = [0, 2]"
proof -
  have miss: "\<forall>r \<in> set (services listStore).
       \<not> (sid (heap listStore r) = ''nope'' \<or> sname (heap listStore r) = ''nope'')"
    by (simp add: listStore_def fooStore_def svc_def)
  have hit: "\<exists>r \<in> set (services listStore).
         sid (heap listStore r) = ''Foo'' \<or> sname (heap listStore r) = ''Foo''"
    by (simp add: listStore_def fooStore_def svc_def)
  have run: "fst (disconnectServiceByNameOrId listStore ''Foo'') = Inr ()"
    "services (snd (disconnectServiceByNameOrId listStore ''Foo'')) = [1, 2]"
    "services (snd (disconnectServiceByNameOrId listStore ''b'')) = [0, 2]"
    by (simp_all add: disconnectServiceByNameOrId_def removeFirst.simps listStore_def
        fooStore_def svc_def)
  from disconnectServiceByNameOrId_first_match [of listStore "''nope''"] miss
  have a: "disconnectServiceByNameOrId listStore ''nope'' = (Inl (NotFound ''nope''), listStore)"
    by blast
  from miss hit run a show ?thesis by simp
qed

end
